theory Spec2Isabelle
  imports Main "HOL-Library.Char_ord" "HOL-Library.Sublist" "HOL-Library.AList"
begin

section \<open>Go strings and byte slices\<close>

text \<open>
  A Go \<^verbatim>\<open>string\<close> and a \<^verbatim>\<open>[]byte\<close> are byte sequences. Both are modelled as
  \<^typ>\<open>string\<close> (a list of 8-bit characters), one \<^typ>\<open>char\<close> per byte; a nil slice is the
  empty list, and \<^verbatim>\<open>string(b)\<close> is the identity.
\<close>

type_synonym bytes = string

definition strings_HasPrefix :: "string \<Rightarrow> string \<Rightarrow> bool" where
  "strings_HasPrefix s pre = prefix pre s"

fun strings_Contains :: "string \<Rightarrow> string \<Rightarrow> bool" where
  "strings_Contains [] substr = (substr = [])"
| "strings_Contains (c # cs) substr = (prefix substr (c # cs) \<or> strings_Contains cs substr)"

text \<open>
  \<^verbatim>\<open>unicode.IsSpace\<close>, as the UTF-8 encodings of the runes it accepts: the Latin-1 spaces
  \<^verbatim>\<open>\t \n \v \f \r ' '\<close>, U+0085, U+00A0, and the other runes of the Unicode property
  White_Space (U+1680, U+2000 to U+200A, U+2028, U+2029, U+202F, U+205F, U+3000). The
  encodings are prefix-free, so a string starts (ends) with a space rune exactly when
  one of these byte sequences is a prefix (suffix) of it.
\<close>

definition White_Space :: "string list" where
  "White_Space =
     [[CHR 0x09], [CHR 0x0A], [CHR 0x0B], [CHR 0x0C], [CHR 0x0D], [CHR 0x20],
      [CHR 0xC2, CHR 0x85], [CHR 0xC2, CHR 0xA0],
      [CHR 0xE1, CHR 0x9A, CHR 0x80],
      [CHR 0xE2, CHR 0x80, CHR 0x80], [CHR 0xE2, CHR 0x80, CHR 0x81],
      [CHR 0xE2, CHR 0x80, CHR 0x82], [CHR 0xE2, CHR 0x80, CHR 0x83],
      [CHR 0xE2, CHR 0x80, CHR 0x84], [CHR 0xE2, CHR 0x80, CHR 0x85],
      [CHR 0xE2, CHR 0x80, CHR 0x86], [CHR 0xE2, CHR 0x80, CHR 0x87],
      [CHR 0xE2, CHR 0x80, CHR 0x88], [CHR 0xE2, CHR 0x80, CHR 0x89],
      [CHR 0xE2, CHR 0x80, CHR 0x8A],
      [CHR 0xE2, CHR 0x80, CHR 0xA8], [CHR 0xE2, CHR 0x80, CHR 0xA9],
      [CHR 0xE2, CHR 0x80, CHR 0xAF],
      [CHR 0xE2, CHR 0x81, CHR 0x9F],
      [CHR 0xE3, CHR 0x80, CHR 0x80]]"

text \<open>
  \<^verbatim>\<open>strings.TrimLeftFunc(s, unicode.IsSpace)\<close>: while the string starts with the encoding
  of a space rune, drop that rune. \<open>trimRunes\<close> takes the table of encodings, so that the
  right trim is the same loop over the reversed string with the reversed encodings.
\<close>

fun trimRunes :: "string list \<Rightarrow> string \<Rightarrow> string" where
  "trimRunes tab [] = []"
| "trimRunes tab (c # cs) =
     (case find (\<lambda>p. prefix p (c # cs)) tab of
        None \<Rightarrow> c # cs
      | Some p \<Rightarrow> trimRunes tab (drop (length p - 1) cs))"

definition strings_TrimLeftSpace :: "string \<Rightarrow> string" where
  "strings_TrimLeftSpace s = trimRunes White_Space s"

definition strings_TrimRightSpace :: "string \<Rightarrow> string" where
  "strings_TrimRightSpace s = rev (trimRunes (map rev White_Space) (rev s))"

text \<open>\<^verbatim>\<open>strings.TrimSpace(s)\<close> is \<^verbatim>\<open>TrimRightFunc(TrimLeftFunc(s, IsSpace), IsSpace)\<close>.\<close>

definition strings_TrimSpace :: "string \<Rightarrow> string" where
  "strings_TrimSpace s = strings_TrimRightSpace (strings_TrimLeftSpace s)"

section \<open>Regular expressions of package regexp\<close>

text \<open>
  A compiled pattern is modelled by its anchored matcher: \<open>re s = Some n\<close> when the
  pattern matches at the start of \<open>s\<close> and the match Go prefers there (leftmost-first,
  greedy repetition) is \<open>n\<close> bytes long, \<open>None\<close> when it does not match there. The three
  patterns of the program never match the empty string.

  \<^verbatim>\<open>ReplaceAllString\<close> and \<^verbatim>\<open>Split\<close> scan the string from the left: at each position
  they take the match that starts there if there is one, and go on behind it;
  otherwise they keep the byte and go on with the next position.
\<close>

type_synonym regexp = "string \<Rightarrow> nat option"

fun regexp_ReplaceAllString :: "regexp \<Rightarrow> string \<Rightarrow> string \<Rightarrow> string" where
  "regexp_ReplaceAllString re [] repl = []"
| "regexp_ReplaceAllString re (c # cs) repl =
     (case re (c # cs) of
        None \<Rightarrow> c # regexp_ReplaceAllString re cs repl
      | Some n \<Rightarrow> repl @ regexp_ReplaceAllString re (drop (n - 1) cs) repl)"

text \<open>
  \<open>splitFrom re cur s\<close>: the pieces of \<open>s\<close>, where \<open>cur\<close> is the piece read so far.
  \<^verbatim>\<open>re.Split(s, -1)\<close> returns every piece, the empty ones too; on the empty string it
  returns one empty piece.
\<close>

fun splitFrom :: "regexp \<Rightarrow> string \<Rightarrow> string \<Rightarrow> string list" where
  "splitFrom re cur [] = [cur]"
| "splitFrom re cur (c # cs) =
     (case re (c # cs) of
        None \<Rightarrow> splitFrom re (cur @ [c]) cs
      | Some n \<Rightarrow> cur # splitFrom re [] (drop (n - 1) cs))"

definition regexp_Split :: "regexp \<Rightarrow> string \<Rightarrow> string list" where
  "regexp_Split re s = splitFrom re [] s"

text \<open>The class \<^verbatim>\<open>\s\<close> of Go's regexp syntax: \<^verbatim>\<open>[\t\n\f\r ]\<close>.\<close>

definition perlSpace :: "char \<Rightarrow> bool" where
  "perlSpace c = (c \<in> set [CHR 0x09, CHR 0x0A, CHR 0x0C, CHR 0x0D, CHR 0x20])"

section \<open>headers.go\<close>

text \<open>\<^verbatim>\<open>var addrSplitRegex = regexp.MustCompile(`\s*,\s*`)\<close>\<close>

definition addrSplitRegex :: regexp where
  "addrSplitRegex s =
     (case dropWhile perlSpace s of
        [] \<Rightarrow> None
      | c # r \<Rightarrow>
          if c = CHR '','' then
            Some (length (takeWhile perlSpace s) + 1 + length (takeWhile perlSpace r))
          else None)"

text \<open>\<^verbatim>\<open>var whitespaceRegex = regexp.MustCompile(`\s+`)\<close>\<close>

definition whitespaceRegex :: regexp where
  "whitespaceRegex s =
     (case takeWhile perlSpace s of [] \<Rightarrow> None | c # r \<Rightarrow> Some (length (c # r)))"

text \<open>\<^verbatim>\<open>var commentRegex = regexp.MustCompile(`\([^\)]*\)`)\<close>\<close>

definition commentRegex :: regexp where
  "commentRegex s =
     (case s of
        [] \<Rightarrow> None
      | c # r \<Rightarrow>
          if c = CHR ''('' then
            (case dropWhile (\<lambda>x. x \<noteq> CHR '')'') r of
               [] \<Rightarrow> None
             | _ # _ \<Rightarrow> Some (1 + length (takeWhile (\<lambda>x. x \<noteq> CHR '')'') r) + 1))
          else None)"

definition splitAddrs :: "string list \<Rightarrow> string list" where
  "splitAddrs vals = concat (map (\<lambda>val. regexp_Split addrSplitRegex val) vals)"

text \<open>RFC 2822 allows whitespace and comments, ElasticSearch/joda-time does not.\<close>

definition stripSpaceAndComments :: "string list \<Rightarrow> string list" where
  "stripSpaceAndComments vals =
     map (\<lambda>val.
            strings_TrimSpace
              (regexp_ReplaceAllString whitespaceRegex
                 (regexp_ReplaceAllString commentRegex val '''') '' ''))
         vals"

section \<open>main.go: base64 pre-normalisation\<close>

text \<open>
  The function literal passed to \<^verbatim>\<open>bytes.Map\<close>; \<open>None\<close> is the rune \<^verbatim>\<open>-1\<close>, which
  \<^verbatim>\<open>bytes.Map\<close> drops.
\<close>

definition base64Rune :: "char \<Rightarrow> char option" where
  "base64Rune r =
     (if (CHR ''0'' \<le> r \<and> r \<le> CHR ''9'') \<or> (CHR ''A'' \<le> r \<and> r \<le> CHR ''Z'')
          \<or> (CHR ''a'' \<le> r \<and> r \<le> CHR ''z'') \<or> r = CHR ''+'' \<or> r = CHR ''/'' \<or> r = CHR ''=''
      then Some r
      else if r = CHR '','' \<or> r = CHR ''_'' \<or> r = CHR '':'' then Some (CHR ''/'')
      else if r = CHR ''-'' then Some (CHR ''+'')
      else None)"

text \<open>
  \<^verbatim>\<open>bytes.Map\<close> decodes the slice rune by rune. Every byte of a multi-byte rune, and
  every invalid byte (decoded as U+FFFD), is at least 0x80, and the rune handed to the
  mapping is at least 0x80 as well; \<open>base64Rune\<close> drops all of them, so mapping byte by
  byte gives the same slice.
\<close>

fun bytes_Map :: "(char \<Rightarrow> char option) \<Rightarrow> bytes \<Rightarrow> bytes" where
  "bytes_Map mapping [] = []"
| "bytes_Map mapping (c # cs) =
     (case mapping c of
        None \<Rightarrow> bytes_Map mapping cs
      | Some r \<Rightarrow> r # bytes_Map mapping cs)"

definition normalizeForBase64 :: "bytes \<Rightarrow> bytes" where
  "normalizeForBase64 body = bytes_Map base64Rune body"


section \<open>Errors, panics and the packages the program calls\<close>

text \<open>
  A Go \<^verbatim>\<open>error\<close> that is not nil is a value of \<open>error\<close>; a result \<^verbatim>\<open>(x, err)\<close> whose
  \<open>x\<close> the caller reads only when \<^verbatim>\<open>err == nil\<close> is a sum (\<open>Inl\<close> the error), and one
  where the program inspects both components is the pair, with \<open>None\<close> for nil. A
  run-time panic ends the transformation: nothing is returned.
\<close>

datatype error = Error string

datatype panic = NilPointerDereference

text \<open>\<^verbatim>\<open>chardet.Result\<close>, and what \<^verbatim>\<open>(*Detector).DetectBest\<close> returns: \<^verbatim>\<open>(*Result, error)\<close>.\<close>

record chardet_Result =
  Charset :: string
  Language :: string
  Confidence :: int

type_synonym detector = "bytes \<Rightarrow> chardet_Result option \<times> error option"

text \<open>An \<^verbatim>\<open>encoding.Encoding\<close> is used through \<^verbatim>\<open>enc.NewDecoder().Bytes(body)\<close> only.\<close>

type_synonym encoding = "bytes \<Rightarrow> error + bytes"

text \<open>The \<^verbatim>\<open>CharsetReader\<close> of a \<^verbatim>\<open>mime.WordDecoder\<close>, on the bytes of its input reader.\<close>

type_synonym charsetReader = "string \<Rightarrow> bytes \<Rightarrow> panic + (error + bytes)"

text \<open>\<^verbatim>\<open>[32]byte\<close>, the result type of \<^verbatim>\<open>blake2b.Sum256\<close>.\<close>

typedef digest = "{bs :: bytes. length bs = 32}"
  by (rule exI[of _ "replicate 32 (CHR 0x00)"]) simp

text \<open>
  The program's flag \<^verbatim>\<open>-attachdir\<close> and the library functions it calls, whose code is
  not part of the repository: the two detectors of package chardet
  (\<^verbatim>\<open>htmlDetector.DetectBest\<close>, \<^verbatim>\<open>textDetector.DetectBest\<close>), \<^verbatim>\<open>htmlindex.Get\<close>,
  \<^verbatim>\<open>(*mime.WordDecoder).DecodeHeader\<close> (given its charset reader),
  \<^verbatim>\<open>mime.ParseMediaType\<close>, reading a \<^verbatim>\<open>quotedprintable\<close> reader to its end,
  \<^verbatim>\<open>base64.StdEncoding.Decode\<close> (the bytes it wrote and its error) and
  \<^verbatim>\<open>blake2b.Sum256\<close>. Log output is not modelled.
\<close>

record env =
  attachdir :: string
  htmlDetector :: detector
  textDetector :: detector
  htmlindex_Get :: "string \<Rightarrow> encoding option \<times> error option"
  mime_DecodeHeader :: "charsetReader \<Rightarrow> string \<Rightarrow> panic + (error + string)"
  mime_ParseMediaType :: "string \<Rightarrow> error + (string \<times> (string \<rightharpoonup> string))"
  quotedprintable_ReadAll :: "bytes \<Rightarrow> error + bytes"
  base64_Decode :: "bytes \<Rightarrow> bytes \<times> error option"
  blake2b_Sum256 :: "bytes \<Rightarrow> digest"

text \<open>\<^verbatim>\<open>base64.StdEncoding.DecodedLen(n)\<close>, for the padded standard encoding.\<close>

definition base64_DecodedLen :: "nat \<Rightarrow> nat" where
  "base64_DecodedLen n = n div 4 * 3"

definition hextable :: string where
  "hextable = ''0123456789abcdef''"

fun hex_EncodeToString :: "bytes \<Rightarrow> string" where
  "hex_EncodeToString [] = []"
| "hex_EncodeToString (v # src) =
     hextable ! (of_char v div 16) # hextable ! (of_char v mod 16) # hex_EncodeToString src"

text \<open>
  \<^verbatim>\<open>strings.Join(elems, sep)\<close>.
\<close>

fun strings_Join :: "string list \<Rightarrow> string \<Rightarrow> string" where
  "strings_Join [] sep = []"
| "strings_Join [e] sep = e"
| "strings_Join (e # f # es) sep = e @ sep @ strings_Join (f # es) sep"

text \<open>
  \<^verbatim>\<open>filepath.Clean(path)\<close> on Unix (separator \<^verbatim>\<open>/\<close>, no volume name). The library reads
  the path element by element, an element being what stands between two separators,
  and writes the clean path to a buffer: an empty element and \<^verbatim>\<open>.\<close> are skipped; \<^verbatim>\<open>..\<close>
  takes back the last element written when there is one to take back, is dropped at
  the root, and is written itself otherwise (so \<^verbatim>\<open>..\<close> elements stand only at the start
  of the buffer); every other element is written. Here the buffer is the list \<open>out\<close> of
  the elements written. The result is the root, if the path starts with a separator,
  and the elements joined by the separator; \<^verbatim>\<open>.\<close> when that is empty.
\<close>

fun pathElements :: "string \<Rightarrow> string \<Rightarrow> string list" where
  "pathElements cur [] = [cur]"
| "pathElements cur (c # cs) =
     (if c = CHR ''/'' then cur # pathElements [] cs else pathElements (cur @ [c]) cs)"

fun cleanElements :: "bool \<Rightarrow> string list \<Rightarrow> string list \<Rightarrow> string list" where
  "cleanElements rooted out [] = out"
| "cleanElements rooted out (e # es) =
     (if e = [] \<or> e = ''.'' then cleanElements rooted out es
      else if e = ''..'' then
        (if out \<noteq> [] \<and> last out \<noteq> ''..'' then cleanElements rooted (butlast out) es
         else if rooted then cleanElements rooted out es
         else cleanElements rooted (out @ [''..'']) es)
      else cleanElements rooted (out @ [e]) es)"

definition filepath_Clean :: "string \<Rightarrow> string" where
  "filepath_Clean path =
     (let rooted = prefix ''/'' path;
          out = (if rooted then ''/'' else []) @
                strings_Join (cleanElements rooted [] (pathElements [] path)) ''/''
      in if out = [] then ''.'' else out)"

text \<open>
  \<^verbatim>\<open>filepath.Join(dir, name)\<close>: the elements from the first one that is not empty on,
  joined by the separator and cleaned; the empty string when both are empty.
\<close>

definition filepath_Join :: "string \<Rightarrow> string \<Rightarrow> string" where
  "filepath_Join dir name =
     (if dir \<noteq> [] then filepath_Clean (strings_Join [dir, name] ''/'')
      else if name \<noteq> [] then filepath_Clean name
      else [])"

section \<open>charset.go\<close>

text \<open>
  \<open>decodeCharset\<close> returns \<^verbatim>\<open>(decoded, charset, err)\<close>; a nil slice is \<open>[]\<close>. Reading
  \<^verbatim>\<open>detenc.Charset\<close> through a nil \<^verbatim>\<open>detenc\<close> panics. The \<^verbatim>\<open>description\<close> and the logger
  only feed the log.
\<close>

definition decodeCharset ::
  "env \<Rightarrow> string \<Rightarrow> bytes \<Rightarrow> bool \<Rightarrow> panic + (bytes \<times> string \<times> error option)" where
  "decodeCharset env charset body ishtml =
     (case (if charset = [] then
              (case (if ishtml then htmlDetector env body else textDetector env body) of
                 (detenc, err) \<Rightarrow>
                   if err \<noteq> None then
                     (case detenc of
                        None \<Rightarrow> Inl NilPointerDereference
                      | Some r \<Rightarrow> Inr (Charset r))
                   else Inr ''utf-8'')
            else Inr charset) of
        Inl p \<Rightarrow> Inl p
      | Inr charset \<Rightarrow>
          (case htmlindex_Get env charset of
             (Some enc, None) \<Rightarrow>
               (case enc body of
                  Inl err \<Rightarrow> Inr ([], charset, Some err)
                | Inr decoded \<Rightarrow> Inr (decoded, charset, None))
           | (enc, err) \<Rightarrow> Inr ([], charset, err)))"

text \<open>
  \<open>decodeReader\<close> on the bytes of its input (a \<^verbatim>\<open>bytes.Reader\<close> of the word decoder,
  which reads without error).
\<close>

definition decodeReader :: "env \<Rightarrow> charsetReader" where
  "decodeReader env charset body =
     (case decodeCharset env charset body False of
        Inl p \<Rightarrow> Inl p
      | Inr (decoded, _, Some err) \<Rightarrow> Inr (Inl err)
      | Inr (decoded, _, None) \<Rightarrow> Inr (Inr decoded))"

section \<open>main.go: messages and documents\<close>

text \<open>
  \<^verbatim>\<open>email.Header\<close> is a \<^verbatim>\<open>map[string][]string\<close>, here an association list read through
  \<^const>\<open>map_of\<close>. \<^verbatim>\<open>h.Get(key)\<close> is the first value of the key or the empty string (the
  keys the program asks for are in canonical form already), \<^verbatim>\<open>h[key]\<close> is the list of
  values, nil when the key is absent. The map itself is never nil: the parser allocates
  it for every message and part.
\<close>

type_synonym Header = "(string \<times> string list) list"

definition Header_Get :: "Header \<Rightarrow> string \<Rightarrow> string" where
  "Header_Get h key = (case map_of h key of None \<Rightarrow> [] | Some [] \<Rightarrow> [] | Some (v # _) \<Rightarrow> v)"

definition Header_index :: "Header \<Rightarrow> string \<Rightarrow> string list" where
  "Header_index h key = (case map_of h key of None \<Rightarrow> [] | Some vs \<Rightarrow> vs)"

text \<open>
  \<^verbatim>\<open>email.Message\<close>; a nil pointer among the parts or for the sub-message is \<open>None\<close>.
  The field \<^verbatim>\<open>Id\<close> of \<^verbatim>\<open>JMessage\<close> is \<open>Id'\<close> here (\<open>Id\<close> is the identity relation of HOL).
\<close>

datatype Message =
  Message (msg_Header: Header) (msg_Preamble: bytes) (msg_Epilogue: bytes)
    (msg_Parts: "Message option list") (msg_SubMessage: "Message option") (msg_Body: bytes)

datatype JMessage =
  JMessage (Id': string) (Header: Header) (Preamble: bytes) (Epilogue: bytes)
    (Parts: "JMessage list") (SubMessage: "JMessage option") (TextBody: string)
    (Attachment: string)

section \<open>main.go: the attachment directory\<close>

text \<open>
  The file system as the program sees it: the files visible under their final paths,
  and the writes done (each successful \<^verbatim>\<open>f.Write\<close> of a body to the temporary file of
  a path). What the operating system refuses is scripted: the head of \<open>faults\<close> says
  which call fails while the next attachment is stored (\<open>None\<close>, or an exhausted list:
  nothing fails). \<open>StatError\<close> is an error of \<^verbatim>\<open>os.Stat\<close> other than "does not exist".
\<close>

datatype fault = StatError | CreateError | WriteError | CommitError

record world =
  files :: "string \<rightharpoonup> bytes"
  writes :: "(string \<times> bytes) list"
  faults :: "fault option list"

definition attachmentPath :: "env \<Rightarrow> bytes \<Rightarrow> string" where
  "attachmentPath env body =
     filepath_Join (attachdir env) (hex_EncodeToString (Rep_digest (blake2b_Sum256 env body)))"

text \<open>
  The code behind the label \<^verbatim>\<open>file:\<close>, from the hash to the last \<^verbatim>\<open>return result\<close>: the
  path recorded as \<^verbatim>\<open>result.Attachment\<close>, and the file system afterwards. A file that
  \<^verbatim>\<open>safefile\<close> has not committed is not visible under the path.
\<close>

definition jsonifyMsg_file :: "env \<Rightarrow> bytes \<Rightarrow> world \<Rightarrow> string \<times> world" where
  "jsonifyMsg_file env body w =
     (let path = attachmentPath env body;
          fault = (case faults w of [] \<Rightarrow> None | f # _ \<Rightarrow> f);
          w = w\<lparr>faults := drop 1 (faults w)\<rparr>
      in if files w path \<noteq> None \<or> fault = Some StatError then (path, w)
         else if fault = Some CreateError then (path, w)
         else if fault = Some WriteError then (path, w)
         else if fault = Some CommitError then (path, w\<lparr>writes := writes w @ [(path, body)]\<rparr>)
         else (path, w\<lparr>files := (files w)(path \<mapsto> body), writes := writes w @ [(path, body)]\<rparr>))"

section \<open>main.go: jsonifyMsg\<close>

text \<open>
  The header loop: every value is replaced by its decoded form, or kept when
  \<^verbatim>\<open>DecodeHeader\<close> returns an error. The charset reader of the word decoder is
  \<open>decodeReader\<close>, so a panic of \<open>decodeCharset\<close> comes up through \<^verbatim>\<open>DecodeHeader\<close>.
\<close>

fun decodeValues :: "env \<Rightarrow> string list \<Rightarrow> panic + string list" where
  "decodeValues env [] = Inr []"
| "decodeValues env (v # vs) =
     (case mime_DecodeHeader env (decodeReader env) v of
        Inl p \<Rightarrow> Inl p
      | Inr r \<Rightarrow>
          (case decodeValues env vs of
             Inl p \<Rightarrow> Inl p
           | Inr ds \<Rightarrow> Inr ((case r of Inl err \<Rightarrow> v | Inr dec \<Rightarrow> dec) # ds)))"

fun decodeHeaders :: "env \<Rightarrow> Header \<Rightarrow> panic + Header" where
  "decodeHeaders env [] = Inr []"
| "decodeHeaders env ((k, vs) # h) =
     (case decodeValues env vs of
        Inl p \<Rightarrow> Inl p
      | Inr ds \<Rightarrow>
          (case decodeHeaders env h of
             Inl p \<Rightarrow> Inl p
           | Inr h' \<Rightarrow> Inr ((k, ds) # h')))"

text \<open>
  A statement \<^verbatim>\<open>result.Header[key] = f(result.Header[key])\<close>: the key is set, also
  when it was absent (to the value of \<open>f\<close> on the nil list).
\<close>

definition Header_apply :: "string \<times> (string list \<Rightarrow> string list) \<Rightarrow> Header \<Rightarrow> Header" where
  "Header_apply kf h = (case kf of (key, f) \<Rightarrow> AList.update key (f (Header_index h key)) h)"

text \<open>
  The part under \<^verbatim>\<open>//// Headers\<close>, after \<^verbatim>\<open>result.Id\<close> has been read: the deletion, the
  loop, and the seven assignments in their order.
\<close>

definition jsonifyMsg_Headers :: "env \<Rightarrow> Header \<Rightarrow> panic + Header" where
  "jsonifyMsg_Headers env hdr =
     (case decodeHeaders env (AList.delete ''Message-Id'' hdr) of
        Inl p \<Rightarrow> Inl p
      | Inr h \<Rightarrow>
          Inr (fold Header_apply
                 [(''Date'', stripSpaceAndComments),
                  (''From'', splitAddrs),
                  (''To'', splitAddrs),
                  (''Cc'', splitAddrs),
                  (''Bcc'', splitAddrs),
                  (''Return-Path'', splitAddrs),
                  (''Delivered-To'', splitAddrs)]
                 h))"

text \<open>
  The part under \<^verbatim>\<open>//// Body Transfer-Encoding\<close>: the body to go on with, or the error
  after which the program jumps to \<^verbatim>\<open>file:\<close> with \<^verbatim>\<open>msg.Body\<close> as it was. The base64
  branch keeps the whole buffer of \<^verbatim>\<open>DecodedLen\<close> bytes, not only the bytes written.
\<close>

definition jsonifyMsg_TransferEncoding :: "env \<Rightarrow> string \<Rightarrow> bytes \<Rightarrow> error + bytes" where
  "jsonifyMsg_TransferEncoding env cte body =
     (if cte = ''quoted-printable'' then quotedprintable_ReadAll env body
      else if cte = ''base64'' then
        (let unspacedBody = normalizeForBase64 body;
             n = base64_DecodedLen (length unspacedBody)
         in case base64_Decode env unspacedBody of
              (written, Some err) \<Rightarrow> Inl err
            | (written, None) \<Rightarrow> Inr (take n (written @ replicate n (CHR 0x00))))
      else Inr body)"

text \<open>The condition of the \<^verbatim>\<open>if\<close> under \<^verbatim>\<open>//// Body Charset\<close>.\<close>

definition textPart :: "Header \<Rightarrow> bool" where
  "textPart h =
     (strings_HasPrefix (Header_Get h ''Content-Type'') ''text'' \<and>
      \<not> strings_Contains (Header_Get h ''Content-Disposition'') ''attachment'')"

text \<open>Inside that \<^verbatim>\<open>if\<close>: the media type, its parameters, and the call of \<open>decodeCharset\<close>.\<close>

definition jsonifyMsg_Charset ::
  "env \<Rightarrow> string \<Rightarrow> bytes \<Rightarrow> panic + (bytes \<times> string \<times> error option)" where
  "jsonifyMsg_Charset env ctype body =
     (case (case mime_ParseMediaType env ctype of
              Inr mp \<Rightarrow> mp
            | Inl err \<Rightarrow>
                (if strings_Contains ctype ''html'' then ''text/html'' else ''text/plain'',
                 Map.empty)) of
        (mediatype, params) \<Rightarrow>
          decodeCharset env (case params ''charset'' of None \<Rightarrow> [] | Some c \<Rightarrow> c) body
            (strings_Contains mediatype ''html''))"

text \<open>
  The body of one node, from \<^verbatim>\<open>//// Body\<close> on: \<^verbatim>\<open>result.TextBody\<close> and
  \<^verbatim>\<open>result.Attachment\<close>, and the file system afterwards.
\<close>

definition jsonifyMsg_Body ::
  "env \<Rightarrow> Header \<Rightarrow> bytes \<Rightarrow> world \<Rightarrow> panic + ((string \<times> string) \<times> world)" where
  "jsonifyMsg_Body env h body w =
     (case jsonifyMsg_TransferEncoding env (Header_Get h ''Content-Transfer-Encoding'') body of
        Inl err \<Rightarrow>
          (case jsonifyMsg_file env body w of (path, w') \<Rightarrow> Inr (([], path), w'))
      | Inr decBody \<Rightarrow>
          if textPart h then
            (case jsonifyMsg_Charset env (Header_Get h ''Content-Type'') decBody of
               Inl p \<Rightarrow> Inl p
             | Inr (decoded, charset, None) \<Rightarrow> Inr ((decoded, []), w)
             | Inr (decoded, charset, Some err) \<Rightarrow>
                 (case jsonifyMsg_file env decBody w of (path, w') \<Rightarrow> Inr (([], path), w')))
          else
            (case jsonifyMsg_file env decBody w of (path, w') \<Rightarrow> Inr (([], path), w')))"

text \<open>
  \<open>jsonifyMsg\<close>, with the file system passed through: headers, sub-message, parts in
  their order (nil parts skipped), then the node's own body.
\<close>

fun jsonifyMsg :: "env \<Rightarrow> Message \<Rightarrow> world \<Rightarrow> panic + (JMessage \<times> world)"
  and jsonifySubMessage ::
    "env \<Rightarrow> Message option \<Rightarrow> world \<Rightarrow> panic + (JMessage option \<times> world)"
  and jsonifyParts ::
    "env \<Rightarrow> Message option list \<Rightarrow> world \<Rightarrow> panic + (JMessage list \<times> world)"
where
  "jsonifyMsg env (Message hdr pre epi parts sub body) w =
     (case jsonifyMsg_Headers env hdr of
        Inl p \<Rightarrow> Inl p
      | Inr h \<Rightarrow>
          (case jsonifySubMessage env sub w of
             Inl p \<Rightarrow> Inl p
           | Inr (submsg, w1) \<Rightarrow>
               (case jsonifyParts env parts w1 of
                  Inl p \<Rightarrow> Inl p
                | Inr (partmsgs, w2) \<Rightarrow>
                    (case jsonifyMsg_Body env h body w2 of
                       Inl p \<Rightarrow> Inl p
                     | Inr ((text, attachment), w3) \<Rightarrow>
                         Inr (JMessage (Header_Get hdr ''Message-Id'') h pre epi partmsgs submsg
                                text attachment, w3)))))"
| "jsonifySubMessage env None w = Inr (None, w)"
| "jsonifySubMessage env (Some sub) w =
     (case jsonifyMsg env sub w of
        Inl p \<Rightarrow> Inl p
      | Inr (submsg, w') \<Rightarrow> Inr (Some submsg, w'))"
| "jsonifyParts env [] w = Inr ([], w)"
| "jsonifyParts env (None # parts) w = jsonifyParts env parts w"
| "jsonifyParts env (Some part # parts) w =
     (case jsonifyMsg env part w of
        Inl p \<Rightarrow> Inl p
      | Inr (partmsg, w') \<Rightarrow>
          (case jsonifyParts env parts w' of
             Inl p \<Rightarrow> Inl p
           | Inr (partmsgs, w'') \<Rightarrow> Inr (partmsg # partmsgs, w'')))"

section \<open>Notions used in the statements\<close>

text \<open>
  The canonical base64 alphabet, byte by byte, and what becomes of a byte that
  survives the normalisation. \<open>base64Ranges\<close> is the first test of \<open>base64Rune\<close>.
\<close>

definition base64Alphabet :: "char set" where
  "base64Alphabet =
     set (''ABCDEFGHIJKLMNOPQRSTUVWXYZ'' @ ''abcdefghijklmnopqrstuvwxyz'' @ ''0123456789'' @ ''+/='')"

definition base64Ranges :: "char \<Rightarrow> bool" where
  "base64Ranges r =
     ((CHR ''0'' \<le> r \<and> r \<le> CHR ''9'') \<or> (CHR ''A'' \<le> r \<and> r \<le> CHR ''Z'')
      \<or> (CHR ''a'' \<le> r \<and> r \<le> CHR ''z'') \<or> r = CHR ''+'' \<or> r = CHR ''/'' \<or> r = CHR ''='')"

definition canonical :: "char \<Rightarrow> char" where
  "canonical c = (if c \<in> set '',_:'' then CHR ''/'' else if c = CHR ''-'' then CHR ''+'' else c)"

text \<open>
  A string without a parenthesised span: no \<^verbatim>\<open>(\<close> has a \<^verbatim>\<open>)\<close> behind it. A string whose
  whitespace is collapsed: every byte of the class \<^verbatim>\<open>\s\<close> is a space, and the byte
  behind it is not of that class.
\<close>

fun commentFree :: "string \<Rightarrow> bool" where
  "commentFree [] = True"
| "commentFree (c # cs) = ((c = CHR ''('' \<longrightarrow> CHR '')'' \<notin> set cs) \<and> commentFree cs)"

fun collapsed :: "string \<Rightarrow> bool" where
  "collapsed [] = True"
| "collapsed [c] = (perlSpace c \<longrightarrow> c = CHR '' '')"
| "collapsed (c # d # cs) =
     ((perlSpace c \<longrightarrow> c = CHR '' '' \<and> \<not> perlSpace d) \<and> collapsed (d # cs))"

text \<open>
  The three steps of the Date header, written without a pattern. \<open>uncommented\<close> reads
  the string from the left and leaves out every span from a \<^verbatim>\<open>(\<close> to the first \<^verbatim>\<open>)\<close>
  behind it (\<open>commentRest\<close> is the reading inside such a span); a \<^verbatim>\<open>(\<close> with no \<^verbatim>\<open>)\<close>
  behind it stays. \<open>collapseRuns\<close> leaves out a whitespace byte that stands before
  another one and turns the last byte of a run into a space; whitespace here is the
  class \<^verbatim>\<open>\s\<close> (space, tab, newline, carriage return, form feed).
\<close>

fun uncommented :: "string \<Rightarrow> string" and commentRest :: "string \<Rightarrow> string" where
  "uncommented [] = []"
| "uncommented (c # cs) =
     (if c = CHR ''('' \<and> CHR '')'' \<in> set cs then commentRest cs else c # uncommented cs)"
| "commentRest [] = []"
| "commentRest (c # cs) = (if c = CHR '')'' then uncommented cs else commentRest cs)"

fun collapseRuns :: "string \<Rightarrow> string" where
  "collapseRuns [] = []"
| "collapseRuns [c] = [if perlSpace c then CHR '' '' else c]"
| "collapseRuns (c # d # cs) =
     (if perlSpace c \<and> perlSpace d then collapseRuns (d # cs)
      else (if perlSpace c then CHR '' '' else c) # collapseRuns (d # cs))"

text \<open>
  An address list written out: a first entry, then separators each followed by an
  entry. A separator is a comma with whitespace of the class \<^verbatim>\<open>\s\<close> around it. The
  entries are as the splitting can return them: no entry holds a comma, an entry
  before a separator does not end with whitespace, and an entry behind one does not
  start with it.
\<close>

definition isSeparator :: "string \<Rightarrow> bool" where
  "isSeparator sep =
     (case dropWhile perlSpace sep of
        [] \<Rightarrow> False
      | c # b \<Rightarrow> c = CHR '','' \<and> list_all perlSpace b)"

fun joinAddrs :: "string \<Rightarrow> (string \<times> string) list \<Rightarrow> string" where
  "joinAddrs e [] = e"
| "joinAddrs e ((sep, e') # rest) = e @ sep @ joinAddrs e' rest"

fun addrEntries :: "string \<Rightarrow> (string \<times> string) list \<Rightarrow> bool" where
  "addrEntries e [] = (CHR '','' \<notin> set e)"
| "addrEntries e ((sep, e') # rest) =
     (CHR '','' \<notin> set e \<and> (e = [] \<or> \<not> perlSpace (last e)) \<and> isSeparator sep \<and>
      (e' = [] \<or> \<not> perlSpace (hd e')) \<and> addrEntries e' rest)"

text \<open>
  The documents of a document tree and the nodes of a message tree, both in the order
  node, parts, sub-message; nil parts are no nodes. \<open>transformed env m x\<close>: the
  document \<open>x\<close> is what \<open>jsonifyMsg\<close> returns for the node \<open>m\<close> (from some state of the
  attachment directory).
\<close>

fun documents :: "JMessage \<Rightarrow> JMessage list" where
  "documents (JMessage i h pre epi ps sub t a) =
     JMessage i h pre epi ps sub t a # concat (map documents ps) @
       (case sub of None \<Rightarrow> [] | Some s \<Rightarrow> documents s)"

fun nodes :: "Message \<Rightarrow> Message list" where
  "nodes (Message hdr pre epi parts sub body) =
     Message hdr pre epi parts sub body #
       concat (map (\<lambda>p. case p of None \<Rightarrow> [] | Some part \<Rightarrow> nodes part) parts) @
       (case sub of None \<Rightarrow> [] | Some s \<Rightarrow> nodes s)"


definition transformed :: "env \<Rightarrow> Message \<Rightarrow> JMessage \<Rightarrow> bool" where
  "transformed env m x = (\<exists>s s'. jsonifyMsg env m s = Inr (x, s'))"

text \<open>
  For a node with the normalised header \<open>h\<close> and the body \<open>body\<close>: the text of the
  charset stage when the stage is entered and succeeds (\<open>None\<close> when the transfer
  decoding fails, the stage is not entered, or \<open>decodeCharset\<close> returns an error or
  panics), and the bytes that reach the label \<^verbatim>\<open>file:\<close> otherwise.
\<close>

definition decodedText :: "env \<Rightarrow> Header \<Rightarrow> bytes \<Rightarrow> bytes option" where
  "decodedText env h body =
     (case jsonifyMsg_TransferEncoding env (Header_Get h ''Content-Transfer-Encoding'') body of
        Inl err \<Rightarrow> None
      | Inr decBody \<Rightarrow>
          if textPart h then
            (case jsonifyMsg_Charset env (Header_Get h ''Content-Type'') decBody of
               Inr (decoded, charset, None) \<Rightarrow> Some decoded
             | _ \<Rightarrow> None)
          else None)"

definition fileBody :: "env \<Rightarrow> Header \<Rightarrow> bytes \<Rightarrow> bytes" where
  "fileBody env h body =
     (case jsonifyMsg_TransferEncoding env (Header_Get h ''Content-Transfer-Encoding'') body of
        Inl err \<Rightarrow> body
      | Inr decBody \<Rightarrow> decBody)"

text \<open>
  Libraries with which no run panics: the word decoder does not panic, and a detector
  that returns an error returns a result with it.
\<close>

definition neverPanics :: "env \<Rightarrow> bool" where
  "neverPanics env =
     ((\<forall>reader v p. mime_DecodeHeader env reader v \<noteq> Inl p) \<and>
      (\<forall>body e. htmlDetector env body \<noteq> (None, Some e)) \<and>
      (\<forall>body e. textDetector env body \<noteq> (None, Some e)))"

section \<open>Test doubles\<close>

text \<open>
  Stand-ins for the libraries, to run the program on concrete messages: a text
  detector that always detects ISO-8859-1, an HTML detector that detects nothing, a
  charset index that knows UTF-8 only, a word decoder and a quoted-printable reader
  that change nothing, a media type parser that knows two content types, a base64
  decoder that rejects its input, and a digest that is the body cut or padded to 32
  bytes.
\<close>

definition testEnv :: env where
  "testEnv =
     \<lparr>attachdir = ''files'',
      htmlDetector = (\<lambda>body. (None, Some (Error ''Charset not detected.''))),
      textDetector =
        (\<lambda>body. (Some \<lparr>Charset = ''ISO-8859-1'', Language = ''en'', Confidence = 80\<rparr>, None)),
      htmlindex_Get =
        (\<lambda>name. if name = ''utf-8'' then (Some (\<lambda>body. Inr body), None)
                else (None, Some (Error ''htmlindex: invalid encoding name''))),
      mime_DecodeHeader = (\<lambda>reader v. Inr (Inr v)),
      mime_ParseMediaType =
        (\<lambda>v. if v = ''text/plain; charset=utf-8''
              then Inr (''text/plain'', [''charset'' \<mapsto> ''utf-8''])
              else if v = ''text/plain; charset=klingon''
              then Inr (''text/plain'', [''charset'' \<mapsto> ''klingon''])
              else Inl (Error ''mime: no media type'')),
      quotedprintable_ReadAll = (\<lambda>body. Inr body),
      base64_Decode = (\<lambda>src. ([], Some (Error ''illegal base64 data at input byte 0''))),
      blake2b_Sum256 = (\<lambda>body. Abs_digest (take 32 (body @ replicate 32 (CHR 0x00))))\<rparr>"

definition emptyDir :: world where
  "emptyDir = \<lparr>files = Map.empty, writes = [], faults = []\<rparr>"

definition textMessage :: Message where
  "textMessage =
     Message [(''Message-Id'', [''<1@example.com>'']),
              (''Content-Type'', [''text/plain; charset=utf-8''])]
       [] [] [] None ''hello''"

definition base64Message :: Message where
  "base64Message =
     Message [(''Content-Transfer-Encoding'', [''base64'']),
              (''Content-Type'', [''text/plain; charset=utf-8''])]
       [] [] [] None ''!''"

definition klingonMessage :: Message where
  "klingonMessage =
     Message [(''Content-Type'', [''text/plain; charset=klingon''])] [] [] [] None ''nuqneH''"

definition mixedMessage :: Message where
  "mixedMessage =
     Message [(''Content-Type'', [''multipart/mixed''])] [] []
       [Some textMessage, None, Some base64Message] (Some textMessage) []"

text \<open>The documents expected for them.\<close>

definition normalizedFields :: Header where
  "normalizedFields =
     [(''Date'', []), (''From'', []), (''To'', []), (''Cc'', []), (''Bcc'', []),
      (''Return-Path'', []), (''Delivered-To'', [])]"

definition textDocument :: JMessage where
  "textDocument =
     JMessage ''<1@example.com>''
       ((''Content-Type'', [''text/plain; charset=utf-8'']) # normalizedFields)
       [] [] [] None ''hello'' []"

definition base64Document :: JMessage where
  "base64Document =
     JMessage []
       ((''Content-Transfer-Encoding'', [''base64'']) #
        (''Content-Type'', [''text/plain; charset=utf-8'']) # normalizedFields)
       [] [] [] None [] (attachmentPath testEnv ''!'')"

definition klingonDocument :: JMessage where
  "klingonDocument =
     JMessage [] ((''Content-Type'', [''text/plain; charset=klingon'']) # normalizedFields)
       [] [] [] None [] (attachmentPath testEnv ''nuqneH'')"

definition mixedDocument :: JMessage where
  "mixedDocument =
     JMessage [] ((''Content-Type'', [''multipart/mixed'']) # normalizedFields) [] []
       [textDocument, base64Document] (Some textDocument) [] (attachmentPath testEnv [])"

text \<open>
  A text part with an empty body, and a container that holds it.
\<close>

definition emptyTextMessage :: Message where
  "emptyTextMessage =
     Message [(''Content-Type'', [''text/plain; charset=utf-8''])] [] [] [] None []"

definition emptyTextDocument :: JMessage where
  "emptyTextDocument =
     JMessage [] ((''Content-Type'', [''text/plain; charset=utf-8'']) # normalizedFields)
       [] [] [] None [] []"

definition containerMessage :: Message where
  "containerMessage =
     Message [(''Content-Type'', [''multipart/mixed''])] [] []
       [Some textMessage, Some emptyTextMessage] None []"

definition containerDocument :: JMessage where
  "containerDocument =
     JMessage [] ((''Content-Type'', [''multipart/mixed'']) # normalizedFields) [] []
       [textDocument, emptyTextDocument] None []
       ''files/0000000000000000000000000000000000000000000000000000000000000000''"

text \<open>
  Decoders that reject what the libraries reject, for messages whose transfer decoding
  fails. \<open>base64Std_Decode\<close> decodes the standard alphabet with padding, four bytes at a
  time: it returns the bytes decoded and, for a byte outside the alphabet, misplaced
  padding or an incomplete last group, an error. \<open>quotedprintable_rejecting\<close> rejects a
  body with an unescaped control byte and changes no other body. \<open>strictEnv\<close> is
  \<open>testEnv\<close> with these two; \<open>unpaddedMessage\<close> holds base64 text whose padding is
  missing, \<open>controlMessage\<close> a quoted-printable body with the byte \<^verbatim>\<open>0x01\<close>.
\<close>

definition base64Std :: string where
  "base64Std = ''ABCDEFGHIJKLMNOPQRSTUVWXYZabcdefghijklmnopqrstuvwxyz0123456789+/''"

fun sextet :: "string \<Rightarrow> char \<Rightarrow> nat option" where
  "sextet [] c = None"
| "sextet (a # alphabet) c = (if c = a then Some 0 else map_option Suc (sextet alphabet c))"

definition byteOf :: "nat \<Rightarrow> char" where
  "byteOf n =
     Char (odd n) (odd (n div 2)) (odd (n div 4)) (odd (n div 8))
       (odd (n div 16)) (odd (n div 32)) (odd (n div 64)) (odd (n div 128))"

definition quantum :: "nat \<Rightarrow> nat \<Rightarrow> nat \<Rightarrow> nat \<Rightarrow> bytes" where
  "quantum x y z u =
     [byteOf (x * 4 + y div 16), byteOf (y mod 16 * 16 + z div 4), byteOf (z mod 4 * 64 + u)]"

fun base64Std_Decode :: "bytes \<Rightarrow> bytes \<times> error option" where
  "base64Std_Decode [] = ([], None)"
| "base64Std_Decode (a # b # c # d # src) =
     (case (sextet base64Std a, sextet base64Std b, sextet base64Std c, sextet base64Std d) of
        (Some x, Some y, Some z, Some u) \<Rightarrow>
          (case base64Std_Decode src of (dst, err) \<Rightarrow> (quantum x y z u @ dst, err))
      | (Some x, Some y, Some z, None) \<Rightarrow>
          if d = CHR ''='' \<and> src = [] then (take 2 (quantum x y z 0), None)
          else ([], Some (Error ''illegal base64 data''))
      | (Some x, Some y, None, _) \<Rightarrow>
          if c = CHR ''='' \<and> d = CHR ''='' \<and> src = [] then (take 1 (quantum x y 0 0), None)
          else ([], Some (Error ''illegal base64 data''))
      | _ \<Rightarrow> ([], Some (Error ''illegal base64 data'')))"
| "base64Std_Decode src = ([], Some (Error ''illegal base64 data''))"

definition quotedprintable_rejecting :: "bytes \<Rightarrow> error + bytes" where
  "quotedprintable_rejecting body =
     (if list_ex (\<lambda>b. (b < CHR 0x20 \<and> b \<notin> set [CHR 0x09, CHR 0x0A, CHR 0x0D]) \<or> b = CHR 0x7F) body
      then Inl (Error ''quotedprintable: invalid unescaped byte in body'')
      else Inr body)"

definition strictEnv :: env where
  "strictEnv =
     testEnv\<lparr>quotedprintable_ReadAll := quotedprintable_rejecting,
             base64_Decode := base64Std_Decode\<rparr>"

definition unpaddedMessage :: Message where
  "unpaddedMessage =
     Message [(''Content-Transfer-Encoding'', [''base64'']),
              (''Content-Type'', [''text/plain; charset=utf-8''])]
       [] [] [] None ''aGVsbG8''"

definition unpaddedDocument :: JMessage where
  "unpaddedDocument =
     JMessage []
       ((''Content-Transfer-Encoding'', [''base64'']) #
        (''Content-Type'', [''text/plain; charset=utf-8'']) # normalizedFields)
       [] [] [] None []
       ''files/6147567362473800000000000000000000000000000000000000000000000000''"

definition controlMessage :: Message where
  "controlMessage =
     Message [(''Content-Transfer-Encoding'', [''quoted-printable'']),
              (''Content-Type'', [''text/plain; charset=utf-8''])]
       [] [] [] None (''a'' @ [CHR 0x01])"

definition controlDocument :: JMessage where
  "controlDocument =
     JMessage []
       ((''Content-Transfer-Encoding'', [''quoted-printable'']) #
        (''Content-Type'', [''text/plain; charset=utf-8'']) # normalizedFields)
       [] [] [] None []
       ''files/6101000000000000000000000000000000000000000000000000000000000000''"

section \<open>The base64 pre-normalisation\<close>

lemma char_range_cases:
  assumes "lo \<le> c" "c \<le> hi"
  shows "c \<in> set (map char_of [of_char lo ..< Suc (of_char hi :: nat)])"
proof -
  have "(of_char c :: nat) \<in> set [of_char lo ..< Suc (of_char hi)]"
    using assms by (auto simp add: less_eq_char_def)
  then have "char_of (of_char c :: nat) \<in> char_of ` set [of_char lo ..< Suc (of_char hi :: nat)]"
    by (rule imageI)
  then show ?thesis by simp
qed

lemma digits_eq: "map char_of [of_char (CHR ''0'') ..< Suc (of_char (CHR ''9'') :: nat)] = ''0123456789''"
  by code_simp
lemma upper_eq: "map char_of [of_char (CHR ''A'') ..< Suc (of_char (CHR ''Z'') :: nat)] = ''ABCDEFGHIJKLMNOPQRSTUVWXYZ''"
  by code_simp
lemma lower_eq: "map char_of [of_char (CHR ''a'') ..< Suc (of_char (CHR ''z'') :: nat)] = ''abcdefghijklmnopqrstuvwxyz''"
  by code_simp

lemma digits: "CHR ''0'' \<le> c \<Longrightarrow> c \<le> CHR ''9'' \<Longrightarrow> c \<in> set ''0123456789''"
  using char_range_cases[of "CHR ''0''" c "CHR ''9''"] by (simp only: digits_eq)
lemma upper: "CHR ''A'' \<le> c \<Longrightarrow> c \<le> CHR ''Z'' \<Longrightarrow> c \<in> set ''ABCDEFGHIJKLMNOPQRSTUVWXYZ''"
  using char_range_cases[of "CHR ''A''" c "CHR ''Z''"] by (simp only: upper_eq)
lemma lower: "CHR ''a'' \<le> c \<Longrightarrow> c \<le> CHR ''z'' \<Longrightarrow> c \<in> set ''abcdefghijklmnopqrstuvwxyz''"
  using char_range_cases[of "CHR ''a''" c "CHR ''z''"] by (simp only: lower_eq)

lemma alphabet_all_ranges:
  "list_all base64Ranges (''ABCDEFGHIJKLMNOPQRSTUVWXYZ'' @ ''abcdefghijklmnopqrstuvwxyz'' @ ''0123456789'' @ ''+/='')"
  by (simp add: base64Ranges_def)

lemma alphabet_ranges: "c \<in> base64Alphabet \<Longrightarrow> base64Ranges c"
  using alphabet_all_ranges unfolding base64Alphabet_def list_all_iff by blast

lemma ranges_alphabet:
  assumes "base64Ranges c"
  shows "c \<in> base64Alphabet"
proof -
  have misc: "c = CHR ''+'' \<or> c = CHR ''/'' \<or> c = CHR ''='' \<Longrightarrow> c \<in> set ''+/=''"
    by auto
  show ?thesis
    unfolding base64Alphabet_def set_append
    using assms digits[of c] upper[of c] lower[of c] misc
    unfolding base64Ranges_def by blast
qed

lemma base64Rune_Some: "base64Rune c = Some d \<Longrightarrow> d \<in> base64Alphabet"
  using ranges_alphabet[of c] ranges_alphabet[of "CHR ''/''"] ranges_alphabet[of "CHR ''+''"]
  by (auto simp: base64Rune_def base64Ranges_def split: if_splits)

lemma confusable_not_alphabet: "c \<in> set '',_:-'' \<Longrightarrow> c \<notin> base64Alphabet"
  using alphabet_ranges[of c] by (auto simp: base64Ranges_def)

lemma base64Rune_eq:
  "base64Rune c = (if c \<in> base64Alphabet \<or> c \<in> set '',_:-'' then Some (canonical c) else None)"
proof -
  have "base64Ranges c \<longleftrightarrow> c \<in> base64Alphabet"
    using alphabet_ranges ranges_alphabet by blast
  moreover have "base64Rune c = (if base64Ranges c then Some c
      else if c = CHR '','' \<or> c = CHR ''_'' \<or> c = CHR '':'' then Some (CHR ''/'')
      else if c = CHR ''-'' then Some (CHR ''+'') else None)"
    by (simp add: base64Rune_def base64Ranges_def)
  ultimately show ?thesis
    using confusable_not_alphabet[of c] by (auto simp: canonical_def)
qed

text \<open>
  Claim C6. For every byte sequence, \<open>normalizeForBase64\<close> keeps exactly the bytes of
  the base64 alphabet and the four confusable bytes, in their order; it replaces
  \<^verbatim>\<open>,\<close>, \<^verbatim>\<open>_\<close> and \<^verbatim>\<open>:\<close> by \<^verbatim>\<open>/\<close> and \<^verbatim>\<open>-\<close> by \<^verbatim>\<open>+\<close>, and leaves the bytes of the alphabet
  as they are. So every byte of its result is in \<^verbatim>\<open>A-Z\<close>, \<^verbatim>\<open>a-z\<close>, \<^verbatim>\<open>0-9\<close>, \<^verbatim>\<open>+\<close>, \<^verbatim>\<open>/\<close>,
  \<^verbatim>\<open>=\<close>.
\<close>

theorem normalizeForBase64_alphabet:
  "set (normalizeForBase64 body) \<subseteq> base64Alphabet \<and>
   normalizeForBase64 body =
     map canonical (filter (\<lambda>c. c \<in> base64Alphabet \<or> c \<in> set '',_:-'') body)"
proof
  show "set (normalizeForBase64 body) \<subseteq> base64Alphabet"
    unfolding normalizeForBase64_def
    by (induction body) (auto split: option.splits dest: base64Rune_Some)
  show "normalizeForBase64 body =
     map canonical (filter (\<lambda>c. c \<in> base64Alphabet \<or> c \<in> set '',_:-'') body)"
    unfolding normalizeForBase64_def
    by (induction body) (simp_all add: base64Rune_eq del: set_simps list.set)
qed

theorem normalizeForBase64_alphabet_witness:
  "normalizeForBase64 (''aGVs-bG8_,:d29y bGQ='' @ [CHR 0x0A, CHR 0xC2, CHR 0xA0]) =
     ''aGVs+bG8///d29ybGQ='' \<and>
   set ''aGVs+bG8///d29ybGQ='' \<subseteq> base64Alphabet"
proof -
  let ?body = "''aGVs-bG8_,:d29y bGQ='' @ [CHR 0x0A, CHR 0xC2, CHR 0xA0]"
  have ev: "normalizeForBase64 ?body = ''aGVs+bG8///d29ybGQ=''"
    by (simp add: normalizeForBase64_def base64Rune_def)
  have "set ''aGVs+bG8///d29ybGQ='' \<subseteq> base64Alphabet"
    using normalizeForBase64_alphabet[of ?body, THEN conjunct1] unfolding ev .
  then show ?thesis using ev by blast
qed

section \<open>The Date header\<close>

subsection \<open>Scanning\<close>

lemma set_ReplaceAllString:
  "set (regexp_ReplaceAllString re s repl) \<subseteq> set s \<union> set repl"
proof (induction re s repl rule: regexp_ReplaceAllString.induct)
  case (1 re repl)
  then show ?case by simp
next
  case (2 re c cs repl)
  show ?case
  proof (cases "re (c # cs)")
    case None
    with 2 show ?thesis by auto
  next
    case (Some n)
    with 2 have "set (regexp_ReplaceAllString re (drop (n - 1) cs) repl)
        \<subseteq> set (drop (n - 1) cs) \<union> set repl" by simp
    moreover have "set (drop (n - 1) cs) \<subseteq> set cs" by (rule set_drop_subset)
    ultimately show ?thesis using Some by auto
  qed
qed

lemma ReplaceAllString_no_match:
  "(\<forall>n. re (drop n s) = None) \<Longrightarrow> regexp_ReplaceAllString re s repl = s"
proof (induction s)
  case Nil
  then show ?case by simp
next
  case (Cons c cs)
  have "re (c # cs) = None" using Cons.prems[rule_format, of 0] by simp
  moreover have "\<forall>n. re (drop n cs) = None"
  proof
    fix n show "re (drop n cs) = None" using Cons.prems[rule_format, of "Suc n"] by simp
  qed
  ultimately show ?case using Cons.IH by simp
qed

subsection \<open>Comments\<close>

lemma commentRegex_None:
  "commentRegex (c # cs) = None \<longleftrightarrow> (c = CHR ''('' \<longrightarrow> CHR '')'' \<notin> set cs)"
proof (cases "c = CHR ''(''")
  case False
  then show ?thesis by (simp add: commentRegex_def)
next
  case True
  show ?thesis
  proof (cases "dropWhile (\<lambda>x. x \<noteq> CHR '')'') cs")
    case Nil
    then have "CHR '')'' \<notin> set cs" by (auto simp: dropWhile_eq_Nil_conv)
    moreover have "commentRegex (c # cs) = None" using True by (simp add: commentRegex_def Nil)
    ultimately show ?thesis by simp
  next
    case (Cons a r)
    then have "dropWhile (\<lambda>x. x \<noteq> CHR '')'') cs \<noteq> []" by simp
    then have "CHR '')'' \<in> set cs" by (auto simp: dropWhile_eq_Nil_conv)
    moreover have "commentRegex (c # cs) \<noteq> None" using True by (simp add: commentRegex_def Cons)
    ultimately show ?thesis using True by simp
  qed
qed

lemma commentFree_matches: "commentFree s \<Longrightarrow> commentRegex (drop n s) = None"
proof (induction s arbitrary: n)
  case Nil
  then show ?case by (simp add: commentRegex_def)
next
  case (Cons c cs)
  show ?case
  proof (cases n)
    case 0
    then show ?thesis using Cons.prems by (simp add: commentRegex_None)
  next
    case (Suc m)
    then show ?thesis using Cons by simp
  qed
qed

lemma commentFree_drop: "commentFree s \<Longrightarrow> commentFree (drop n s)"
  by (induction s arbitrary: n) (auto simp: drop_Cons split: nat.splits)

lemma commentFree_take: "commentFree s \<Longrightarrow> commentFree (take n s)"
proof (induction s arbitrary: n)
  case Nil
  then show ?case by simp
next
  case (Cons c cs)
  show ?case
  proof (cases n)
    case 0
    then show ?thesis by simp
  next
    case (Suc m)
    have "set (take m cs) \<subseteq> set cs" by (rule set_take_subset)
    then show ?thesis using Cons Suc by auto
  qed
qed

lemma commentFree_remove: "commentFree (regexp_ReplaceAllString commentRegex s [])"
proof (induction s rule: length_induct)
  case (1 s)
  show ?case
  proof (cases s)
    case Nil
    then show ?thesis by simp
  next
    case (Cons c cs)
    show ?thesis
    proof (cases "commentRegex (c # cs)")
      case None
      have sub: "set (regexp_ReplaceAllString commentRegex cs []) \<subseteq> set cs"
        using set_ReplaceAllString[of commentRegex cs "[]"] by simp
      have "commentFree (regexp_ReplaceAllString commentRegex cs [])"
        using 1 Cons by simp
      moreover have "regexp_ReplaceAllString commentRegex s [] =
          c # regexp_ReplaceAllString commentRegex cs []"
        using None Cons by simp
      moreover have "c = CHR ''('' \<longrightarrow> CHR '')'' \<notin> set cs"
        using None by (simp add: commentRegex_None)
      ultimately show ?thesis using sub by auto
    next
      case (Some n)
      have "length (drop (n - 1) cs) < length s" using Cons by simp
      then have "commentFree (regexp_ReplaceAllString commentRegex (drop (n - 1) cs) [])"
        using 1 by blast
      then show ?thesis using Some Cons by simp
    qed
  qed
qed

lemma commentFree_collapse:
  "commentFree s \<Longrightarrow> commentFree (regexp_ReplaceAllString whitespaceRegex s '' '')"
proof (induction s rule: length_induct)
  case (1 s)
  show ?case
  proof (cases s)
    case Nil
    then show ?thesis by simp
  next
    case (Cons c cs)
    have free: "commentFree cs" and hd: "c = CHR ''('' \<longrightarrow> CHR '')'' \<notin> set cs"
      using 1(2) Cons by simp_all
    show ?thesis
    proof (cases "whitespaceRegex (c # cs)")
      case None
      have sub: "set (regexp_ReplaceAllString whitespaceRegex cs '' '') \<subseteq> set cs \<union> {CHR '' ''}"
        using set_ReplaceAllString[of whitespaceRegex cs "'' ''"] by simp
      have "commentFree (regexp_ReplaceAllString whitespaceRegex cs '' '')"
        using 1 Cons free by simp
      then show ?thesis using None Cons sub hd by auto
    next
      case (Some n)
      have "length (drop (n - 1) cs) < length s" using Cons by simp
      moreover have "commentFree (drop (n - 1) cs)" using free by (rule commentFree_drop)
      ultimately have "commentFree (regexp_ReplaceAllString whitespaceRegex (drop (n - 1) cs) '' '')"
        using 1 by blast
      then show ?thesis using Some Cons by simp
    qed
  qed
qed

subsection \<open>Whitespace\<close>

lemma whitespaceRegex_Nil: "whitespaceRegex [] = None"
  by (simp add: whitespaceRegex_def)

lemma whitespaceRegex_Cons:
  "whitespaceRegex (c # cs) =
     (if perlSpace c then Some (Suc (length (takeWhile perlSpace cs))) else None)"
  by (simp add: whitespaceRegex_def)

lemma collapsed_Cons:
  "collapsed (c # cs) \<longleftrightarrow>
     (perlSpace c \<longrightarrow> c = CHR '' '' \<and> (cs = [] \<or> \<not> perlSpace (hd cs))) \<and> collapsed cs"
  by (cases cs) auto

lemma takeWhile_Nil_hd: "s = [] \<or> \<not> P (hd s) \<Longrightarrow> takeWhile P s = []"
  by (cases s) auto

lemma collapse_hd:
  assumes "s = [] \<or> \<not> perlSpace (hd s)"
  shows "regexp_ReplaceAllString whitespaceRegex s repl = [] \<or>
         \<not> perlSpace (hd (regexp_ReplaceAllString whitespaceRegex s repl))"
  using assms by (cases s) (auto simp: whitespaceRegex_Cons)

lemma collapsed_collapse: "collapsed (regexp_ReplaceAllString whitespaceRegex s '' '')"
proof (induction s rule: length_induct)
  case (1 s)
  show ?case
  proof (cases s)
    case Nil
    then show ?thesis by simp
  next
    case (Cons c cs)
    show ?thesis
    proof (cases "perlSpace c")
      case False
      have "collapsed (regexp_ReplaceAllString whitespaceRegex cs '' '')"
        using 1 Cons by simp
      then show ?thesis using False Cons by (simp add: whitespaceRegex_Cons collapsed_Cons)
    next
      case True
      let ?r = "dropWhile perlSpace cs"
      have out: "regexp_ReplaceAllString whitespaceRegex s '' '' =
          CHR '' '' # regexp_ReplaceAllString whitespaceRegex ?r '' ''"
        using True Cons by (simp add: whitespaceRegex_Cons dropWhile_eq_drop)
      have "length ?r \<le> length cs" by (rule length_dropWhile_le)
      then have "length ?r < length s" using Cons by simp
      then have "collapsed (regexp_ReplaceAllString whitespaceRegex ?r '' '')"
        using 1 by blast
      moreover have "?r = [] \<or> \<not> perlSpace (hd ?r)"
        using hd_dropWhile[of perlSpace cs] by blast
      then have "regexp_ReplaceAllString whitespaceRegex ?r '' '' = [] \<or>
          \<not> perlSpace (hd (regexp_ReplaceAllString whitespaceRegex ?r '' ''))"
        by (rule collapse_hd)
      ultimately show ?thesis unfolding out by (simp add: collapsed_Cons)
    qed
  qed
qed

lemma collapsed_drop: "collapsed s \<Longrightarrow> collapsed (drop n s)"
proof (induction s arbitrary: n)
  case Nil
  then show ?case by simp
next
  case (Cons c cs)
  then show ?case by (cases n) (simp_all add: collapsed_Cons)
qed

lemma collapsed_take: "collapsed s \<Longrightarrow> collapsed (take n s)"
proof (induction s arbitrary: n)
  case Nil
  then show ?case by simp
next
  case (Cons c cs)
  show ?case
  proof (cases n)
    case 0
    then show ?thesis by simp
  next
    case (Suc m)
    have "take m cs = [] \<or> hd (take m cs) = hd cs"
      by (cases cs; cases m) simp_all
    moreover have "take m cs \<noteq> [] \<Longrightarrow> cs \<noteq> []" by auto
    ultimately show ?thesis using Cons Suc by (auto simp: collapsed_Cons)
  qed
qed

lemma collapsed_fixed: "collapsed s \<Longrightarrow> regexp_ReplaceAllString whitespaceRegex s '' '' = s"
proof (induction s)
  case Nil
  then show ?case by simp
next
  case (Cons c cs)
  then have ih: "regexp_ReplaceAllString whitespaceRegex cs '' '' = cs"
    by (simp add: collapsed_Cons)
  show ?case
  proof (cases "perlSpace c")
    case False
    then show ?thesis using ih by (simp add: whitespaceRegex_Cons)
  next
    case True
    then have "c = CHR '' ''" and "takeWhile perlSpace cs = []"
      using Cons.prems by (simp_all add: collapsed_Cons takeWhile_Nil_hd)
    then show ?thesis using True ih by (simp add: whitespaceRegex_Cons)
  qed
qed

subsection \<open>Trimming\<close>

lemma trimRunes_suffix: "suffix (trimRunes tab s) s"
proof (induction tab s rule: trimRunes.induct)
  case (1 tab)
  then show ?case by simp
next
  case (2 tab c cs)
  show ?case
  proof (cases "find (\<lambda>p. prefix p (c # cs)) tab")
    case None
    then show ?thesis by simp
  next
    case (Some p)
    with 2 have "suffix (trimRunes tab (drop (length p - 1) cs)) (drop (length p - 1) cs)"
      by simp
    moreover have "suffix (drop (length p - 1) cs) (c # cs)"
      by (simp add: suffix_ConsI suffix_drop)
    ultimately show ?thesis using Some by (auto intro: suffix_order.trans)
  qed
qed

lemma trimRunes_no_prefix:
  "[] \<notin> set tab \<Longrightarrow> p \<in> set tab \<Longrightarrow> \<not> prefix p (trimRunes tab s)"
proof (induction tab s rule: trimRunes.induct)
  case (1 tab)
  then show ?case by auto
next
  case (2 tab c cs)
  show ?case
  proof (cases "find (\<lambda>p. prefix p (c # cs)) tab")
    case None
    then have "\<not> prefix p (c # cs)" using 2(3) by (auto simp: find_None_iff)
    then show ?thesis using None by simp
  next
    case (Some q)
    with 2 show ?thesis by simp
  qed
qed

lemma trimRunes_fixed: "(\<forall>p\<in>set tab. \<not> prefix p s) \<Longrightarrow> trimRunes tab s = s"
proof (cases s)
  case Nil
  then show ?thesis by simp
next
  case (Cons c cs)
  assume "\<forall>p\<in>set tab. \<not> prefix p s"
  then have "find (\<lambda>p. prefix p (c # cs)) tab = None"
    using Cons by (auto simp: find_None_iff)
  then show ?thesis using Cons by simp
qed

lemma White_Space_nonempty: "[] \<notin> set White_Space"
  by (simp add: White_Space_def)

lemma TrimLeftSpace_suffix: "suffix (strings_TrimLeftSpace s) s"
  unfolding strings_TrimLeftSpace_def by (rule trimRunes_suffix)

lemma TrimRightSpace_prefix: "prefix (strings_TrimRightSpace s) s"
  unfolding strings_TrimRightSpace_def
  using trimRunes_suffix[of "map rev White_Space" "rev s"]
  by (simp add: suffix_to_prefix)

lemma TrimSpace_no_prefix:
  assumes "p \<in> set White_Space"
  shows "\<not> prefix p (strings_TrimSpace s)"
proof
  assume "prefix p (strings_TrimSpace s)"
  moreover have "prefix (strings_TrimSpace s) (strings_TrimLeftSpace s)"
    unfolding strings_TrimSpace_def by (rule TrimRightSpace_prefix)
  ultimately have "prefix p (strings_TrimLeftSpace s)" by (rule prefix_order.trans)
  then show False
    unfolding strings_TrimLeftSpace_def
    using trimRunes_no_prefix[OF White_Space_nonempty assms] by blast
qed

lemma TrimSpace_no_suffix:
  assumes "p \<in> set White_Space"
  shows "\<not> suffix p (strings_TrimSpace s)"
proof -
  have "[] \<notin> set (map rev White_Space)" using White_Space_nonempty by auto
  moreover have "rev p \<in> set (map rev White_Space)" using assms by simp
  ultimately have "\<not> prefix (rev p)
      (trimRunes (map rev White_Space) (rev (strings_TrimLeftSpace s)))"
    by (rule trimRunes_no_prefix)
  then show ?thesis
    by (simp add: strings_TrimSpace_def strings_TrimRightSpace_def suffix_to_prefix)
qed

lemma TrimSpace_fixed:
  assumes "\<forall>p\<in>set White_Space. \<not> prefix p s \<and> \<not> suffix p s"
  shows "strings_TrimSpace s = s"
proof -
  have "strings_TrimLeftSpace s = s"
    unfolding strings_TrimLeftSpace_def using assms by (intro trimRunes_fixed) blast
  moreover have "trimRunes (map rev White_Space) (rev s) = rev s"
    using assms by (intro trimRunes_fixed) (auto simp: suffix_to_prefix)
  ultimately show ?thesis by (simp add: strings_TrimSpace_def strings_TrimRightSpace_def)
qed

lemma TrimSpace_take_drop: "\<exists>m n. strings_TrimSpace s = take m (drop n s)"
proof -
  obtain zs where "s = zs @ strings_TrimLeftSpace s"
    using TrimLeftSpace_suffix[of s] by (auto simp: suffix_def)
  then have l: "strings_TrimLeftSpace s = drop (length zs) s"
    by (metis append_eq_conv_conj)
  obtain ys where "strings_TrimLeftSpace s = strings_TrimSpace s @ ys"
    using TrimRightSpace_prefix[of "strings_TrimLeftSpace s"]
    by (auto simp: prefix_def strings_TrimSpace_def)
  then have "strings_TrimSpace s = take (length (strings_TrimSpace s)) (strings_TrimLeftSpace s)"
    by (metis append_eq_conv_conj)
  then show ?thesis using l by metis
qed

subsection \<open>The steps without patterns\<close>

lemma commentRest_dropWhile:
  "CHR '')'' \<in> set cs \<Longrightarrow>
     commentRest cs = uncommented (tl (dropWhile (\<lambda>x. x \<noteq> CHR '')'') cs))"
  by (induction cs) auto

lemma commentRegex_Some:
  assumes "CHR '')'' \<in> set cs"
  shows "commentRegex (CHR ''('' # cs) = Some (length (takeWhile (\<lambda>x. x \<noteq> CHR '')'') cs) + 2)"
proof (cases "dropWhile (\<lambda>x. x \<noteq> CHR '')'') cs")
  case Nil
  then have "CHR '')'' \<notin> set cs" by (auto simp: dropWhile_eq_Nil_conv)
  then show ?thesis using assms by simp
next
  case (Cons a r)
  then show ?thesis by (simp add: commentRegex_def Cons)
qed

lemma removed_uncommented: "regexp_ReplaceAllString commentRegex s [] = uncommented s"
proof (induction s rule: length_induct)
  case (1 s)
  show ?case
  proof (cases s)
    case Nil
    then show ?thesis by simp
  next
    case (Cons c cs)
    show ?thesis
    proof (cases "c = CHR ''('' \<and> CHR '')'' \<in> set cs")
      case False
      then have "commentRegex (c # cs) = None" by (simp add: commentRegex_None)
      moreover have "regexp_ReplaceAllString commentRegex cs [] = uncommented cs"
        using 1 Cons by simp
      moreover have "uncommented (c # cs) = c # uncommented cs" using False by auto
      ultimately show ?thesis unfolding Cons by simp
    next
      case True
      let ?r = "tl (dropWhile (\<lambda>x. x \<noteq> CHR '')'') cs)"
      have r: "drop (Suc (length (takeWhile (\<lambda>x. x \<noteq> CHR '')'') cs))) cs = ?r"
        by (simp add: dropWhile_eq_drop drop_Suc tl_drop)
      have "length ?r \<le> length cs"
        using length_dropWhile_le[of "\<lambda>x. x \<noteq> CHR '')''" cs] by simp
      then have "regexp_ReplaceAllString commentRegex ?r [] = uncommented ?r"
        using 1 Cons by simp
      then show ?thesis
        using True Cons r by (simp add: commentRegex_Some commentRest_dropWhile)
    qed
  qed
qed

lemma collapseRuns_space:
  "perlSpace c \<Longrightarrow> collapseRuns (c # cs) = CHR '' '' # collapseRuns (dropWhile perlSpace cs)"
  by (induction cs arbitrary: c) simp_all

lemma collapseRuns_other: "\<not> perlSpace c \<Longrightarrow> collapseRuns (c # cs) = c # collapseRuns cs"
  by (cases cs) simp_all

lemma collapsed_collapseRuns: "regexp_ReplaceAllString whitespaceRegex s '' '' = collapseRuns s"
proof (induction s rule: length_induct)
  case (1 s)
  show ?case
  proof (cases s)
    case Nil
    then show ?thesis by simp
  next
    case (Cons c cs)
    show ?thesis
    proof (cases "perlSpace c")
      case False
      moreover have "regexp_ReplaceAllString whitespaceRegex cs '' '' = collapseRuns cs"
        using 1 Cons by simp
      ultimately show ?thesis using Cons by (simp add: whitespaceRegex_Cons collapseRuns_other)
    next
      case True
      let ?r = "dropWhile perlSpace cs"
      have "length ?r \<le> length cs" by (rule length_dropWhile_le)
      then have "regexp_ReplaceAllString whitespaceRegex ?r '' '' = collapseRuns ?r"
        using 1 Cons by simp
      then show ?thesis
        using True Cons by (simp add: whitespaceRegex_Cons collapseRuns_space dropWhile_eq_drop)
    qed
  qed
qed

lemma trimRunes_concat:
  "[] \<notin> set tab \<Longrightarrow> \<exists>ps. set ps \<subseteq> set tab \<and> s = concat ps @ trimRunes tab s"
proof (induction tab s rule: trimRunes.induct)
  case (1 tab)
  show ?case by (rule exI[of _ "[]"]) simp
next
  case (2 tab c cs)
  show ?case
  proof (cases "find (\<lambda>p. prefix p (c # cs)) tab")
    case None
    show ?thesis by (rule exI[of _ "[]"]) (simp add: None)
  next
    case (Some p)
    then have p: "p \<in> set tab" "prefix p (c # cs)"
      by (auto simp: find_Some_iff)
    then have "p \<noteq> []" using 2(2) by auto
    then have split: "c # cs = p @ drop (length p - 1) cs"
      using p(2) by (cases p) (auto simp: prefix_def)
    from 2(1)[OF Some 2(2)] obtain ps where
      ps: "set ps \<subseteq> set tab"
        "drop (length p - 1) cs = concat ps @ trimRunes tab (drop (length p - 1) cs)"
      by blast
    have "trimRunes tab (c # cs) = trimRunes tab (drop (length p - 1) cs)"
      using Some by simp
    then have "c # cs = p @ concat ps @ trimRunes tab (c # cs)"
      using split ps(2) by metis
    then have "c # cs = concat (p # ps) @ trimRunes tab (c # cs)" by simp
    moreover have "set (p # ps) \<subseteq> set tab" using p(1) ps(1) by simp
    ultimately show ?thesis by blast
  qed
qed

lemma TrimSpace_concat:
  "\<exists>ls rs. set ls \<subseteq> set White_Space \<and> set rs \<subseteq> set White_Space \<and>
     s = concat ls @ strings_TrimSpace s @ concat rs"
proof -
  obtain ls where ls: "set ls \<subseteq> set White_Space"
      "s = concat ls @ strings_TrimLeftSpace s"
    using trimRunes_concat[OF White_Space_nonempty, of s]
    unfolding strings_TrimLeftSpace_def by blast
  let ?t = "strings_TrimLeftSpace s"
  have "[] \<notin> set (map rev White_Space)" using White_Space_nonempty by auto
  then obtain ps where ps: "set ps \<subseteq> set (map rev White_Space)"
      "rev ?t = concat ps @ trimRunes (map rev White_Space) (rev ?t)"
    using trimRunes_concat[of "map rev White_Space" "rev ?t"] by blast
  have "rev (rev ?t) = rev (concat ps @ trimRunes (map rev White_Space) (rev ?t))"
    using ps(2) by simp
  then have t: "?t = strings_TrimSpace s @ concat (map rev (rev ps))"
    by (simp add: strings_TrimSpace_def strings_TrimRightSpace_def rev_concat)
  have "set (map rev (rev ps)) \<subseteq> set White_Space" using ps(1) by auto
  then show ?thesis using ls t by metis
qed

lemma TrimSpace_trimmed:
  "list_all (\<lambda>p. \<not> prefix p (strings_TrimSpace s) \<and> \<not> suffix p (strings_TrimSpace s)) White_Space"
  unfolding list_all_iff using TrimSpace_no_prefix TrimSpace_no_suffix by blast

subsection \<open>The three stages together\<close>

lemma strip_commentFree:
  "commentFree (strings_TrimSpace (regexp_ReplaceAllString whitespaceRegex
      (regexp_ReplaceAllString commentRegex val []) '' ''))"
proof -
  let ?s = "regexp_ReplaceAllString whitespaceRegex (regexp_ReplaceAllString commentRegex val []) '' ''"
  have "commentFree ?s" by (intro commentFree_collapse commentFree_remove)
  moreover obtain m n where "strings_TrimSpace ?s = take m (drop n ?s)"
    using TrimSpace_take_drop by blast
  ultimately show ?thesis by (simp add: commentFree_take commentFree_drop)
qed

lemma strip_collapsed:
  "collapsed (strings_TrimSpace (regexp_ReplaceAllString whitespaceRegex s '' ''))"
proof -
  let ?s = "regexp_ReplaceAllString whitespaceRegex s '' ''"
  have "collapsed ?s" by (rule collapsed_collapse)
  moreover obtain m n where "strings_TrimSpace ?s = take m (drop n ?s)"
    using TrimSpace_take_drop by blast
  ultimately show ?thesis by (simp add: collapsed_take collapsed_drop)
qed

lemma strip_fixed:
  assumes "commentFree v" and "collapsed v"
    and "\<forall>p\<in>set White_Space. \<not> prefix p v \<and> \<not> suffix p v"
  shows "strings_TrimSpace (regexp_ReplaceAllString whitespaceRegex
      (regexp_ReplaceAllString commentRegex v []) '' '') = v"
proof -
  have "regexp_ReplaceAllString commentRegex v [] = v"
    using assms(1) by (intro ReplaceAllString_no_match) (simp add: commentFree_matches)
  then show ?thesis using assms(2,3) by (simp add: collapsed_fixed TrimSpace_fixed)
qed

text \<open>
  Claim C3, as amended. \<open>stripSpaceAndComments\<close> returns one value per value, and each
  returned value comes from its value in three steps. Every span from a \<^verbatim>\<open>(\<close> to the
  first \<^verbatim>\<open>)\<close> behind it is left out. Then every run of whitespace bytes (space, tab,
  newline, carriage return, form feed) becomes a single space. Then the space runes at
  both ends are taken off: what is taken off at either end is a sequence of space
  runes, and what stays neither starts nor ends with a space rune. Stripping a stripped
  list changes nothing. The value of the test of the repository, and the same value
  with the indentation of the specification, both become
  \<^verbatim>\<open>Thu, 13 Feb 1969 23:32 -0330\<close>.
\<close>

theorem stripSpaceAndComments_strips:
  "list_all2
     (\<lambda>val out. \<exists>ls rs. set ls \<subseteq> set White_Space \<and> set rs \<subseteq> set White_Space \<and>
        collapseRuns (uncommented val) = concat ls @ out @ concat rs \<and>
        list_all (\<lambda>p. \<not> prefix p out \<and> \<not> suffix p out) White_Space)
     vals (stripSpaceAndComments vals) \<and>
   stripSpaceAndComments (stripSpaceAndComments vals) = stripSpaceAndComments vals \<and>
   stripSpaceAndComments
     ['' Thu,\<newline>      13\<newline>        Feb\<newline>          1969\<newline>      23:32\<newline>               -0330 (Newfoundland Time)'']
     = [''Thu, 13 Feb 1969 23:32 -0330''] \<and>
   stripSpaceAndComments
     ['' Thu,\<newline> 13\<newline> Feb\<newline> 1969\<newline> 23:32\<newline> -0330 (Newfoundland Time)'']
     = [''Thu, 13 Feb 1969 23:32 -0330'']"
proof (intro conjI)
  show "list_all2
     (\<lambda>val out. \<exists>ls rs. set ls \<subseteq> set White_Space \<and> set rs \<subseteq> set White_Space \<and>
        collapseRuns (uncommented val) = concat ls @ out @ concat rs \<and>
        list_all (\<lambda>p. \<not> prefix p out \<and> \<not> suffix p out) White_Space)
     vals (stripSpaceAndComments vals)"
    unfolding stripSpaceAndComments_def list_all2_map2 removed_uncommented collapsed_collapseRuns
    by (rule list_all2_refl) (use TrimSpace_concat TrimSpace_trimmed in blast)
next
  show "stripSpaceAndComments (stripSpaceAndComments vals) = stripSpaceAndComments vals"
    unfolding stripSpaceAndComments_def map_map comp_def
    by (intro map_cong refl strip_fixed strip_commentFree strip_collapsed ballI conjI
        TrimSpace_no_prefix TrimSpace_no_suffix)
next
  show "stripSpaceAndComments
     ['' Thu,\<newline>      13\<newline>        Feb\<newline>          1969\<newline>      23:32\<newline>               -0330 (Newfoundland Time)'']
     = [''Thu, 13 Feb 1969 23:32 -0330'']"
    by (simp add: stripSpaceAndComments_def strings_TrimSpace_def strings_TrimLeftSpace_def
        strings_TrimRightSpace_def White_Space_def whitespaceRegex_def commentRegex_def
        perlSpace_def)
next
  show "stripSpaceAndComments
     ['' Thu,\<newline> 13\<newline> Feb\<newline> 1969\<newline> 23:32\<newline> -0330 (Newfoundland Time)'']
     = [''Thu, 13 Feb 1969 23:32 -0330'']"
    by (simp add: stripSpaceAndComments_def strings_TrimSpace_def strings_TrimLeftSpace_def
        strings_TrimRightSpace_def White_Space_def whitespaceRegex_def commentRegex_def
        perlSpace_def)
qed

theorem stripSpaceAndComments_strips_witness:
  "stripSpaceAndComments [''Mon (a (b) c),  1'' @ [CHR 0x09, CHR 0x0B]] = [''Mon c), 1''] \<and>
   uncommented (''Mon (a (b) c),  1'' @ [CHR 0x09, CHR 0x0B]) =
     ''Mon  c),  1'' @ [CHR 0x09, CHR 0x0B] \<and>
   collapseRuns (''Mon  c),  1'' @ [CHR 0x09, CHR 0x0B]) = ''Mon c), 1 '' @ [CHR 0x0B] \<and>
   (\<exists>ls rs. set ls \<subseteq> set White_Space \<and> set rs \<subseteq> set White_Space \<and>
      ''Mon c), 1 '' @ [CHR 0x0B] = concat ls @ ''Mon c), 1'' @ concat rs \<and>
      list_all (\<lambda>p. \<not> prefix p ''Mon c), 1'' \<and> \<not> suffix p ''Mon c), 1'') White_Space) \<and>
   stripSpaceAndComments [''Mon c), 1''] = [''Mon c), 1'']"
proof -
  let ?val = "''Mon (a (b) c),  1'' @ [CHR 0x09, CHR 0x0B]"
  have ev: "stripSpaceAndComments [?val] = [''Mon c), 1'']"
    by (simp add: stripSpaceAndComments_def strings_TrimSpace_def strings_TrimLeftSpace_def
        strings_TrimRightSpace_def White_Space_def whitespaceRegex_def commentRegex_def
        perlSpace_def)
  have u: "uncommented ?val = ''Mon  c),  1'' @ [CHR 0x09, CHR 0x0B]" by simp
  have c: "collapseRuns (''Mon  c),  1'' @ [CHR 0x09, CHR 0x0B]) = ''Mon c), 1 '' @ [CHR 0x0B]"
    by (simp add: perlSpace_def)
  note t = stripSpaceAndComments_strips[of "[?val]"]
  have "\<exists>ls rs. set ls \<subseteq> set White_Space \<and> set rs \<subseteq> set White_Space \<and>
      collapseRuns (uncommented ?val) = concat ls @ ''Mon c), 1'' @ concat rs \<and>
      list_all (\<lambda>p. \<not> prefix p ''Mon c), 1'' \<and> \<not> suffix p ''Mon c), 1'') White_Space"
    using t[THEN conjunct1] unfolding ev by (simp only: list_all2_Cons list_all2_Nil simp_thms)
  then have "\<exists>ls rs. set ls \<subseteq> set White_Space \<and> set rs \<subseteq> set White_Space \<and>
      ''Mon c), 1 '' @ [CHR 0x0B] = concat ls @ ''Mon c), 1'' @ concat rs \<and>
      list_all (\<lambda>p. \<not> prefix p ''Mon c), 1'' \<and> \<not> suffix p ''Mon c), 1'') White_Space"
    unfolding u c .
  moreover have "stripSpaceAndComments [''Mon c), 1''] = [''Mon c), 1'']"
    using t[THEN conjunct2, THEN conjunct1] unfolding ev .
  ultimately show ?thesis using ev u c by blast
qed

text \<open>
  Claim C3 as stated fails in two places. Comments are not matched as nested ones: of
  a comment that holds another comment, the text behind the inner \<^verbatim>\<open>)\<close> stays. And a run
  of vertical tabs, white space that is not of the class \<^verbatim>\<open>\s\<close>, is not collapsed.
\<close>

theorem stripSpaceAndComments_nested_comment:
  "stripSpaceAndComments [''Thu, 13 Feb 1969 23:32 -0330 (Newfoundland (Standard) Time)'']
     = [''Thu, 13 Feb 1969 23:32 -0330 Time)''] \<and>
   stripSpaceAndComments [''Thu, 13 Feb 1969 23:32 -0330 (Newfoundland (Standard) Time)'']
     \<noteq> [''Thu, 13 Feb 1969 23:32 -0330''] \<and>
   stripSpaceAndComments [''23:32'' @ [CHR 0x0B, CHR 0x0B] @ ''-0330'']
     = [''23:32'' @ [CHR 0x0B, CHR 0x0B] @ ''-0330''] \<and>
   stripSpaceAndComments [''23:32'' @ [CHR 0x0B, CHR 0x0B] @ ''-0330''] \<noteq> [''23:32 -0330'']"
  by (simp add: stripSpaceAndComments_def strings_TrimSpace_def strings_TrimLeftSpace_def
        strings_TrimRightSpace_def White_Space_def whitespaceRegex_def commentRegex_def
        perlSpace_def)

section \<open>The address headers\<close>

lemma perlSpace_comma: "\<not> perlSpace (CHR '','')"
  by (simp add: perlSpace_def)

lemma isSeparatorE:
  assumes "isSeparator sep"
  obtains a b where "sep = a @ CHR '','' # b" "list_all perlSpace a" "list_all perlSpace b"
proof -
  obtain c b where d: "dropWhile perlSpace sep = c # b"
    using assms by (auto simp: isSeparator_def split: list.splits)
  then have c: "c = CHR '',''" and b: "list_all perlSpace b"
    using assms by (simp_all add: isSeparator_def)
  have "sep = takeWhile perlSpace sep @ CHR '','' # b"
    using takeWhile_dropWhile_id[of perlSpace sep] d c by simp
  moreover have "list_all perlSpace (takeWhile perlSpace sep)"
    by (simp add: list_all_iff) (meson set_takeWhileD)
  ultimately show ?thesis using that b by blast
qed

lemma spaces_takeWhile: "list_all perlSpace a \<Longrightarrow> takeWhile perlSpace (a @ t) = a @ takeWhile perlSpace t"
  by (induction a) auto

lemma spaces_dropWhile: "list_all perlSpace a \<Longrightarrow> dropWhile perlSpace (a @ t) = dropWhile perlSpace t"
  by (induction a) auto

lemma addrSplitRegex_sep:
  assumes "list_all perlSpace a" "list_all perlSpace b"
  shows "addrSplitRegex (a @ CHR '','' # b @ t) =
           Some (length (a @ CHR '','' # b) + length (takeWhile perlSpace t))"
  using assms
  by (simp add: addrSplitRegex_def spaces_takeWhile spaces_dropWhile perlSpace_comma)

lemma splitFrom_sep:
  assumes "isSeparator sep"
  shows "splitFrom addrSplitRegex cur (sep @ t) =
           cur # splitFrom addrSplitRegex [] (dropWhile perlSpace t)"
proof -
  obtain a b where sep: "sep = a @ CHR '','' # b"
    and a: "list_all perlSpace a" and b: "list_all perlSpace b"
    using assms by (rule isSeparatorE)
  obtain c cs where cs: "sep @ t = c # cs" by (cases "sep @ t") (simp_all add: sep)
  have m: "addrSplitRegex (c # cs) = Some (length sep + length (takeWhile perlSpace t))"
    using addrSplitRegex_sep[OF a b, of t] cs sep by simp
  have "drop (length sep + length (takeWhile perlSpace t) - 1) cs =
        drop (length sep + length (takeWhile perlSpace t)) (c # cs)"
    using sep by simp
  also have "\<dots> = drop (length (takeWhile perlSpace t)) t"
    unfolding cs[symmetric] by simp
  also have "\<dots> = dropWhile perlSpace t" by (simp add: dropWhile_eq_drop)
  finally show ?thesis unfolding cs using m by simp
qed

lemma addrSplitRegex_no_comma: "CHR '','' \<notin> set s \<Longrightarrow> addrSplitRegex s = None"
proof -
  assume a: "CHR '','' \<notin> set s"
  have "set (dropWhile perlSpace s) \<subseteq> set s" by (auto dest: set_dropWhileD)
  then show ?thesis using a by (auto simp: addrSplitRegex_def split: list.splits)
qed

lemma addrSplitRegex_entry:
  assumes "e \<noteq> []" "\<not> perlSpace (last e)" "CHR '','' \<notin> set e"
  shows "addrSplitRegex (e @ t) = None"
proof -
  have ex: "\<exists>x\<in>set e. \<not> perlSpace x" using assms(1,2) last_in_set by blast
  then have d: "dropWhile perlSpace (e @ t) = dropWhile perlSpace e @ t"
    by (auto simp: dropWhile_append1)
  have ne: "dropWhile perlSpace e \<noteq> []" using ex by (simp add: dropWhile_eq_Nil_conv)
  then obtain c r where cr: "dropWhile perlSpace e = c # r" by (cases "dropWhile perlSpace e") auto
  then have "c \<in> set e" by (metis list.set_intros(1) set_dropWhileD)
  then have "c \<noteq> CHR '',''" using assms(3) by auto
  then show ?thesis by (simp add: addrSplitRegex_def d cr)
qed

lemma splitFrom_entry:
  "e = [] \<or> \<not> perlSpace (last e) \<Longrightarrow> CHR '','' \<notin> set e \<Longrightarrow>
   splitFrom addrSplitRegex cur (e @ t) = splitFrom addrSplitRegex (cur @ e) t"
proof (induction e arbitrary: cur)
  case Nil
  then show ?case by simp
next
  case (Cons c e)
  have "addrSplitRegex ((c # e) @ t) = None"
    using Cons.prems by (intro addrSplitRegex_entry) auto
  moreover have "e = [] \<or> \<not> perlSpace (last e)" using Cons.prems by auto
  ultimately show ?case using Cons by simp
qed

lemma splitFrom_no_comma:
  "CHR '','' \<notin> set s \<Longrightarrow> splitFrom addrSplitRegex cur s = [cur @ s]"
proof (induction s arbitrary: cur)
  case Nil
  then show ?case by simp
next
  case (Cons c s)
  then have "addrSplitRegex (c # s) = None" by (intro addrSplitRegex_no_comma)
  then show ?case using Cons by simp
qed

lemma splitFrom_skip_spaces:
  assumes "e = [] \<or> \<not> perlSpace (hd e)" "addrEntries e rest"
  shows "splitFrom addrSplitRegex [] (dropWhile perlSpace (joinAddrs e rest)) =
         splitFrom addrSplitRegex [] (joinAddrs e rest)"
proof (cases e)
  case (Cons c e')
  then have "dropWhile perlSpace (joinAddrs e rest) = joinAddrs e rest"
    using assms(1) by (cases rest) auto
  then show ?thesis by simp
next
  case Nil
  show ?thesis
  proof (cases rest)
    case Nil
    then show ?thesis using \<open>e = []\<close> by simp
  next
    case (Cons x r)
    obtain sep e' where x: "x = (sep, e')" by (cases x)
    have s: "isSeparator sep" using assms(2) Cons x by simp
    then obtain a b where sep: "sep = a @ CHR '','' # b"
      and a: "list_all perlSpace a" and b: "list_all perlSpace b"
      by (rule isSeparatorE)
    have s': "isSeparator (CHR '','' # b)" using b by (simp add: isSeparator_def perlSpace_comma)
    have "dropWhile perlSpace (joinAddrs e rest) = (CHR '','' # b) @ joinAddrs e' r"
      using Cons x \<open>e = []\<close> sep a by (simp add: spaces_dropWhile perlSpace_comma)
    moreover have "joinAddrs e rest = sep @ joinAddrs e' r"
      using Cons x \<open>e = []\<close> by simp
    ultimately show ?thesis
      using splitFrom_sep[OF s, of "[]" "joinAddrs e' r"]
        splitFrom_sep[OF s', of "[]" "joinAddrs e' r"] by simp
  qed
qed

lemma splitFrom_joinAddrs:
  "addrEntries e rest \<Longrightarrow>
   splitFrom addrSplitRegex cur (joinAddrs e rest) = (cur @ e) # map snd rest"
proof (induction rest arbitrary: e cur)
  case Nil
  then show ?case by (simp add: splitFrom_no_comma)
next
  case (Cons x r)
  obtain sep e' where x: "x = (sep, e')" by (cases x)
  from Cons.prems x have c: "CHR '','' \<notin> set e" and l: "e = [] \<or> \<not> perlSpace (last e)"
    and s: "isSeparator sep" and h: "e' = [] \<or> \<not> perlSpace (hd e')" and ok: "addrEntries e' r"
    by simp_all
  have "splitFrom addrSplitRegex cur (joinAddrs e (x # r)) =
        splitFrom addrSplitRegex (cur @ e) (sep @ joinAddrs e' r)"
    using splitFrom_entry[OF l c] x by simp
  also have "\<dots> = (cur @ e) # splitFrom addrSplitRegex [] (dropWhile perlSpace (joinAddrs e' r))"
    by (rule splitFrom_sep[OF s])
  also have "\<dots> = (cur @ e) # splitFrom addrSplitRegex [] (joinAddrs e' r)"
    using splitFrom_skip_spaces[OF h ok] by simp
  also have "\<dots> = (cur @ e) # map snd (x # r)"
    using Cons.IH[OF ok, of "[]"] x by simp
  finally show ?case .
qed

text \<open>
  Claim C4, as amended. When every value is a sequence of entries that hold no comma at
  all, joined by separators (a comma with optional whitespace around it), \<open>splitAddrs\<close>
  returns exactly the entries of all values, in their order: it breaks each value on
  its commas and nowhere else. Every comma is a separator for it, also one inside a
  quoted display name or a comment.
\<close>

theorem splitAddrs_entries:
  "(\<forall>(e, rest) \<in> set vals. addrEntries e rest) \<Longrightarrow>
   splitAddrs (map (\<lambda>(e, rest). joinAddrs e rest) vals) =
     concat (map (\<lambda>(e, rest). e # map snd rest) vals)"
proof (induction vals)
  case Nil
  then show ?case by (simp add: splitAddrs_def)
next
  case (Cons v vals)
  obtain e rest where v: "v = (e, rest)" by (cases v)
  have "regexp_Split addrSplitRegex (joinAddrs e rest) = e # map snd rest"
    using Cons.prems v splitFrom_joinAddrs[of e rest "[]"] by (simp add: regexp_Split_def)
  moreover have "splitAddrs (map (\<lambda>(e, rest). joinAddrs e rest) vals) =
     concat (map (\<lambda>(e, rest). e # map snd rest) vals)"
    using Cons by simp
  ultimately show ?case using v by (simp add: splitAddrs_def)
qed

theorem splitAddrs_entries_witness:
  "splitAddrs [''hello world <test@example.com> ,'' @ [CHR 0x09] @ '' nice@me.me (test),hi@example.com'']
     = [''hello world <test@example.com>'', ''nice@me.me (test)'', ''hi@example.com'']"
proof -
  let ?vals = "[(''hello world <test@example.com>'',
                 [('' ,'' @ [CHR 0x09] @ '' '', ''nice@me.me (test)''), ('','', ''hi@example.com'')])]"
  have "\<forall>(e, rest) \<in> set ?vals. addrEntries e rest"
    by (simp add: isSeparator_def perlSpace_def)
  from splitAddrs_entries[OF this] show ?thesis by simp
qed

text \<open>
  Claim C4 as stated fails on a comma that is not bare: the single address
  \<^verbatim>\<open>"Doe, John" <jd@example.com>\<close> has its only comma inside the quoted name, and is
  split in two.
\<close>

theorem splitAddrs_quoted_comma:
  "splitAddrs [CHR 0x22 # ''Doe, John'' @ [CHR 0x22] @ '' <jd@example.com>'']
     = [CHR 0x22 # ''Doe'', ''John'' @ [CHR 0x22] @ '' <jd@example.com>''] \<and>
   splitAddrs [CHR 0x22 # ''Doe, John'' @ [CHR 0x22] @ '' <jd@example.com>'']
     \<noteq> [CHR 0x22 # ''Doe, John'' @ [CHR 0x22] @ '' <jd@example.com>'']"
  by (simp add: splitAddrs_def regexp_Split_def addrSplitRegex_def perlSpace_def)

section \<open>Attachments, charsets and the tree\<close>

subsection \<open>The attachment directory\<close>

lemma jsonifyMsg_file_path: "fst (jsonifyMsg_file env body w) = attachmentPath env body"
  by (simp add: jsonifyMsg_file_def Let_def)

lemma hex_EncodeToString_example:
  "hex_EncodeToString [CHR 0x00, CHR 0x21, CHR 0xFF] = ''0021ff''"
  by (simp add: hextable_def)

lemma hex_EncodeToString_length: "length (hex_EncodeToString src) = 2 * length src"
  by (induction src) simp_all

lemma hex_EncodeToString_set: "set (hex_EncodeToString src) \<subseteq> set hextable"
proof (induction src)
  case Nil
  then show ?case by simp
next
  case (Cons v src)
  have "(of_char v :: nat) < 256" by simp
  then have "(of_char v :: nat) div 16 < 16" by (simp add: less_mult_imp_div_less)
  moreover have "n < 16 \<Longrightarrow> hextable ! n \<in> set hextable" for n
    by (rule nth_mem) (simp add: hextable_def)
  ultimately show ?case using Cons by simp
qed

lemma filepath_Clean_examples:
  "filepath_Clean [] = ''.''"
  "filepath_Clean ''files/'' = ''files''"
  "filepath_Clean ''./files//ab'' = ''files/ab''"
  "filepath_Clean ''a/..'' = ''.''"
  "filepath_Clean ''/../a/b/../c/.'' = ''/a/c''"
  "filepath_Clean ''../x/../..//y/'' = ''../../y''"
  by code_simp+

lemma filepath_Join_examples:
  "filepath_Join ''files'' ''ab'' = ''files/ab''"
  "filepath_Join ''files/'' ''ab'' = ''files/ab''"
  "filepath_Join ''./files'' ''ab'' = ''files/ab''"
  "filepath_Join ''/'' ''ab'' = ''/ab''"
  "filepath_Join ''.'' ''ab'' = ''ab''"
  "filepath_Join [] ''ab'' = ''ab''"
  "filepath_Join [] [] = []"
  by code_simp+

lemma filepath_Clean_nonempty: "filepath_Clean path \<noteq> []"
  by (simp add: filepath_Clean_def Let_def)

lemma pathElements_append:
  "pathElements cur (a @ CHR ''/'' # b) = pathElements cur a @ pathElements [] b"
  by (induction a arbitrary: cur) simp_all

lemma pathElements_name: "CHR ''/'' \<notin> set b \<Longrightarrow> pathElements cur b = [cur @ b]"
  by (induction b arbitrary: cur) auto

lemma cleanElements_append:
  "cleanElements rooted out (es @ fs) = cleanElements rooted (cleanElements rooted out es) fs"
  by (induction es arbitrary: out) auto

lemma strings_Join_snoc:
  "strings_Join (es @ [e]) sep = (if es = [] then e else strings_Join es sep @ sep @ e)"
  by (induction es sep rule: strings_Join.induct) simp_all

lemma filepath_Clean_name:
  assumes "name \<noteq> []" "name \<noteq> ''.''" "name \<noteq> ''..''" "CHR ''/'' \<notin> set name"
  shows "filepath_Clean name = name"
proof -
  have "\<not> prefix ''/'' name" using assms(1,4) by (cases name) auto
  then show ?thesis using assms by (simp add: filepath_Clean_def pathElements_name)
qed

lemma filepath_Join_suffix:
  assumes "name \<noteq> []" "name \<noteq> ''.''" "name \<noteq> ''..''" "CHR ''/'' \<notin> set name"
  shows "suffix name (filepath_Join dir name)"
proof (cases "dir = []")
  case True
  then show ?thesis using assms by (simp add: filepath_Join_def filepath_Clean_name)
next
  case False
  let ?r = "prefix ''/'' (dir @ CHR ''/'' # name)"
  let ?es = "cleanElements ?r [] (pathElements [] dir)"
  have "cleanElements ?r [] (pathElements [] (dir @ CHR ''/'' # name)) = ?es @ [name]"
    using assms by (simp add: pathElements_append pathElements_name cleanElements_append)
  then have "filepath_Clean (dir @ CHR ''/'' # name) =
      (if ?r then ''/'' else []) @ (if ?es = [] then name else strings_Join ?es ''/'' @ ''/'' @ name)"
    using assms(1) by (simp add: filepath_Clean_def Let_def strings_Join_snoc)
  then show ?thesis using False by (auto simp: filepath_Join_def suffix_def)
qed

lemma filepath_Join_plain:
  assumes "dir \<noteq> []" "dir \<noteq> ''.''" "dir \<noteq> ''..''" "CHR ''/'' \<notin> set dir"
    and "name \<noteq> []" "name \<noteq> ''.''" "name \<noteq> ''..''" "CHR ''/'' \<notin> set name"
  shows "filepath_Join dir name = dir @ ''/'' @ name"
proof -
  have "\<not> prefix ''/'' (dir @ CHR ''/'' # name)" using assms(1,4) by (cases dir) auto
  then show ?thesis
    using assms
    by (simp add: filepath_Join_def filepath_Clean_def pathElements_append pathElements_name)
qed

text \<open>
  The name of an attachment is 64 hexadecimal digits, so it is an element that
  \<^verbatim>\<open>filepath.Clean\<close> keeps: the recorded path ends with it, whatever the directory.
\<close>

lemma digest_name:
  fixes env :: env and body :: bytes
  defines "name \<equiv> hex_EncodeToString (Rep_digest (blake2b_Sum256 env body))"
  shows "length name = 64" and "CHR ''/'' \<notin> set name"
    and "name \<noteq> []" and "name \<noteq> ''.''" and "name \<noteq> ''..''"
proof -
  have "length (Rep_digest (blake2b_Sum256 env body)) = 32"
    using Rep_digest[of "blake2b_Sum256 env body"] by simp
  then show l: "length name = 64" by (simp add: name_def hex_EncodeToString_length)
  have "CHR ''/'' \<notin> set hextable" by (simp add: hextable_def)
  then show "CHR ''/'' \<notin> set name"
    using hex_EncodeToString_set[of "Rep_digest (blake2b_Sum256 env body)"]
    unfolding name_def by blast
  show "name \<noteq> []" and "name \<noteq> ''.''" and "name \<noteq> ''..''" using l by auto
qed

lemma attachmentPath_nonempty: "attachmentPath env body \<noteq> []"
  using digest_name(3)[of env body]
  by (simp add: attachmentPath_def filepath_Join_def filepath_Clean_nonempty)

lemma attachmentPath_suffix:
  "suffix (hex_EncodeToString (Rep_digest (blake2b_Sum256 env body))) (attachmentPath env body)"
  unfolding attachmentPath_def
  by (intro filepath_Join_suffix digest_name)

lemma jsonifyMsg_file_files:
  "files (snd (jsonifyMsg_file env body w)) = files w \<or>
   files (snd (jsonifyMsg_file env body w)) = (files w)(attachmentPath env body \<mapsto> body)"
  by (simp add: jsonifyMsg_file_def Let_def)

lemma jsonifyMsg_file_hit:
  assumes "files w (attachmentPath env body) \<noteq> None"
  shows "jsonifyMsg_file env body w = (attachmentPath env body, w\<lparr>faults := drop 1 (faults w)\<rparr>)"
  using assms by (simp add: jsonifyMsg_file_def Let_def)

lemma jsonifyMsg_file_first:
  assumes "files w (attachmentPath env body) = None"
    and "faults w = [] \<or> hd (faults w) = None"
  shows "jsonifyMsg_file env body w =
    (attachmentPath env body,
     w\<lparr>faults := drop 1 (faults w),
       files := (files w)(attachmentPath env body \<mapsto> body),
       writes := writes w @ [(attachmentPath env body, body)]\<rparr>)"
  using assms by (cases "faults w") (auto simp: jsonifyMsg_file_def Let_def)

text \<open>
  Claim C8. Storing the same bytes twice, one call after the other, gives the same
  path both times, the path made from the digest of the bytes, and at most one of the
  two calls publishes a file. When a file is visible at that path after the first
  call, the second call writes nothing and leaves the files as they are. When no file
  was at the path before and no call of the operating system fails in the first call,
  the first call writes the bytes once and publishes them at the path, and the second
  call finds them: one write in all. The code behind \<^verbatim>\<open>file:\<close> has no error result.
\<close>

theorem attachment_stored_once:
  assumes "jsonifyMsg_file env body w = (path1, w1)"
    and "jsonifyMsg_file env body w1 = (path2, w2)"
  shows "path1 = attachmentPath env body \<and> path2 = path1 \<and>
    (files w1 = files w \<or> files w2 = files w1) \<and>
    (files w1 path1 \<noteq> None \<longrightarrow> files w2 = files w1 \<and> writes w2 = writes w1) \<and>
    (files w path1 = None \<and> (faults w = [] \<or> hd (faults w) = None) \<longrightarrow>
       files w1 = (files w)(path1 \<mapsto> body) \<and>
       writes w1 = writes w @ [(path1, body)] \<and>
       files w2 = files w1 \<and> writes w2 = writes w1)"
proof -
  have p1: "path1 = attachmentPath env body"
    using jsonifyMsg_file_path[of env body w] assms(1) by simp
  have p2: "path2 = attachmentPath env body"
    using jsonifyMsg_file_path[of env body w1] assms(2) by simp
  have hit: "files w2 = files w1 \<and> writes w2 = writes w1" if "files w1 path1 \<noteq> None"
    using jsonifyMsg_file_hit[of w1 env body] that assms(2) p1 by auto
  have first: "files w1 = (files w)(path1 \<mapsto> body) \<and> writes w1 = writes w @ [(path1, body)]"
    if "files w path1 = None" "faults w = [] \<or> hd (faults w) = None"
    using jsonifyMsg_file_first[of w env body] that assms(1) p1 by auto
  have "files w1 = files w \<or> files w1 = (files w)(path1 \<mapsto> body)"
    using jsonifyMsg_file_files[of env body w] assms(1) p1 by simp
  then have once: "files w1 = files w \<or> files w2 = files w1"
    using hit by auto
  show ?thesis using p1 p2 hit first once by auto
qed

theorem attachment_stored_once_witness:
  "jsonifyMsg_file testEnv ''payload'' emptyDir =
     (attachmentPath testEnv ''payload'',
      \<lparr>files = [attachmentPath testEnv ''payload'' \<mapsto> ''payload''],
       writes = [(attachmentPath testEnv ''payload'', ''payload'')], faults = []\<rparr>) \<and>
   jsonifyMsg_file testEnv ''payload''
     \<lparr>files = [attachmentPath testEnv ''payload'' \<mapsto> ''payload''],
      writes = [(attachmentPath testEnv ''payload'', ''payload'')], faults = []\<rparr> =
     (attachmentPath testEnv ''payload'',
      \<lparr>files = [attachmentPath testEnv ''payload'' \<mapsto> ''payload''],
       writes = [(attachmentPath testEnv ''payload'', ''payload'')], faults = []\<rparr>) \<and>
   files emptyDir (attachmentPath testEnv ''payload'') = None \<and>
   faults emptyDir = []"
proof -
  let ?p = "attachmentPath testEnv ''payload''"
  let ?w1 = "\<lparr>files = [?p \<mapsto> ''payload''], writes = [(?p, ''payload'')], faults = []\<rparr>"
  have a: "jsonifyMsg_file testEnv ''payload'' emptyDir = (?p, ?w1)"
    by (simp add: jsonifyMsg_file_def emptyDir_def Let_def)
  have b: "jsonifyMsg_file testEnv ''payload'' ?w1 = (?p, ?w1)"
    by (simp add: jsonifyMsg_file_def Let_def)
  have c: "files emptyDir ?p = None" "faults emptyDir = []"
    by (simp_all add: emptyDir_def)
  from attachment_stored_once[OF a b] a b c show ?thesis by blast
qed

subsection \<open>Charset resolution\<close>

text \<open>
  Claim C1 says that, without a charset parameter, the detected charset is used when
  detection succeeds and UTF-8 only when it does not. The code tests the error of
  the detector the wrong way round. Whenever the detector chosen by \<open>ishtml\<close> returns a
  result and no error, \<open>decodeCharset\<close> does what it does for the charset \<^verbatim>\<open>utf-8\<close>: the
  detected charset is not used. Whenever the detector returns no result and an error,
  \<open>decodeCharset\<close> reads the charset of the nil result and panics.
\<close>

theorem decodeCharset_detection_inverted:
  assumes "(if ishtml then htmlDetector env body else textDetector env body) = (detenc, err)"
  shows "(detenc \<noteq> None \<and> err = None \<longrightarrow>
            decodeCharset env [] body ishtml = decodeCharset env ''utf-8'' body ishtml) \<and>
         (detenc = None \<and> err \<noteq> None \<longrightarrow>
            decodeCharset env [] body ishtml = Inl NilPointerDereference)"
  using assms by (auto simp: decodeCharset_def)

theorem decodeCharset_detection_inverted_witness:
  "textDetector testEnv ''hello'' =
     (Some \<lparr>Charset = ''ISO-8859-1'', Language = ''en'', Confidence = 80\<rparr>, None) \<and>
   decodeCharset testEnv [] ''hello'' False = Inr (''hello'', ''utf-8'', None) \<and>
   htmlDetector testEnv ''hello'' = (None, Some (Error ''Charset not detected.'')) \<and>
   decodeCharset testEnv [] ''hello'' True = Inl NilPointerDereference"
proof -
  have t: "(if False then htmlDetector testEnv ''hello'' else textDetector testEnv ''hello'') =
      (Some \<lparr>Charset = ''ISO-8859-1'', Language = ''en'', Confidence = 80\<rparr>, None)"
    by (simp add: testEnv_def)
  have h: "(if True then htmlDetector testEnv ''hello'' else textDetector testEnv ''hello'') =
      (None, Some (Error ''Charset not detected.''))"
    by (simp add: testEnv_def)
  have u: "decodeCharset testEnv ''utf-8'' ''hello'' False = Inr (''hello'', ''utf-8'', None)"
    by (simp add: decodeCharset_def testEnv_def)
  show ?thesis
    using decodeCharset_detection_inverted[OF t] decodeCharset_detection_inverted[OF h] t h u
    by simp
qed


subsection \<open>One node\<close>

lemma jsonifyMsg_Inr:
  assumes "jsonifyMsg env (Message hdr pre epi parts sub body) w = Inr (d, w')"
  obtains h submsg w1 partmsgs w2 tbody att where
    "jsonifyMsg_Headers env hdr = Inr h"
    "jsonifySubMessage env sub w = Inr (submsg, w1)"
    "jsonifyParts env parts w1 = Inr (partmsgs, w2)"
    "jsonifyMsg_Body env h body w2 = Inr ((tbody, att), w')"
    "d = JMessage (Header_Get hdr ''Message-Id'') h pre epi partmsgs submsg tbody att"
  using assms by (auto split: sum.splits prod.splits)

lemma jsonifyMsg_Body_Inr:
  assumes "jsonifyMsg_Body env h body w = Inr ((tbody, att), w')"
  shows "case decodedText env h body of
           Some decoded \<Rightarrow> tbody = decoded \<and> att = [] \<and> w' = w
         | None \<Rightarrow> tbody = [] \<and> att = attachmentPath env (fileBody env h body) \<and>
             w' = snd (jsonifyMsg_file env (fileBody env h body) w)"
proof (cases "jsonifyMsg_TransferEncoding env (Header_Get h ''Content-Transfer-Encoding'') body")
  case (Inl err)
  then show ?thesis
    using assms jsonifyMsg_file_path[of env body w]
    by (auto simp: jsonifyMsg_Body_def decodedText_def fileBody_def split: prod.splits)
next
  case (Inr decBody)
  show ?thesis
  proof (cases "textPart h")
    case False
    then show ?thesis
      using assms Inr jsonifyMsg_file_path[of env decBody w]
      by (auto simp: jsonifyMsg_Body_def decodedText_def fileBody_def split: prod.splits)
  next
    case True
    show ?thesis
    proof (cases "jsonifyMsg_Charset env (Header_Get h ''Content-Type'') decBody")
      case (Inl p)
      then show ?thesis using assms Inr True by (simp add: jsonifyMsg_Body_def)
    next
      case r: (Inr res)
      obtain decoded charset err where res: "res = (decoded, charset, err)" by (cases res)
      show ?thesis
        using assms Inr True r res jsonifyMsg_file_path[of env decBody w]
        by (cases err) (auto simp: jsonifyMsg_Body_def decodedText_def fileBody_def split: prod.splits)
    qed
  qed
qed

lemma decodedText_textPart: "decodedText env h body = Some decoded \<Longrightarrow> textPart h"
  by (auto simp: decodedText_def split: sum.splits if_splits)

lemma jsonifyMsg_node:
  assumes "jsonifyMsg env msg w = Inr (d, w')"
  shows "Id' d = Header_Get (msg_Header msg) ''Message-Id''"
    and "jsonifyMsg_Headers env (msg_Header msg) = Inr (Header d)"
    and "Preamble d = msg_Preamble msg" and "Epilogue d = msg_Epilogue msg"
    and "case decodedText env (Header d) (msg_Body msg) of
           Some decoded \<Rightarrow> TextBody d = decoded \<and> Attachment d = []
         | None \<Rightarrow> TextBody d = [] \<and>
             Attachment d = attachmentPath env (fileBody env (Header d) (msg_Body msg))"
proof -
  obtain hdr pre epi parts sub body where msg: "msg = Message hdr pre epi parts sub body"
    by (cases msg)
  from assms[unfolded msg] obtain h submsg w1 partmsgs w2 tbody att where
    h: "jsonifyMsg_Headers env hdr = Inr h"
    and b: "jsonifyMsg_Body env h body w2 = Inr ((tbody, att), w')"
    and d: "d = JMessage (Header_Get hdr ''Message-Id'') h pre epi partmsgs submsg tbody att"
    by (rule jsonifyMsg_Inr)
  show "Id' d = Header_Get (msg_Header msg) ''Message-Id''"
    and "jsonifyMsg_Headers env (msg_Header msg) = Inr (Header d)"
    and "Preamble d = msg_Preamble msg" and "Epilogue d = msg_Epilogue msg"
    using msg h d by simp_all
  show "case decodedText env (Header d) (msg_Body msg) of
           Some decoded \<Rightarrow> TextBody d = decoded \<and> Attachment d = []
         | None \<Rightarrow> TextBody d = [] \<and>
             Attachment d = attachmentPath env (fileBody env (Header d) (msg_Body msg))"
    using jsonifyMsg_Body_Inr[OF b] msg d by (auto split: option.splits)
qed

subsection \<open>Headers\<close>






subsection \<open>The tree\<close>


lemma nodes_documents:
  "jsonifyMsg env msg w = Inr (d, w') \<Longrightarrow>
     list_all2 (transformed env) (nodes msg) (documents d)"
  "jsonifySubMessage env sub w = Inr (s, w') \<Longrightarrow>
     list_all2 (transformed env) (case sub of None \<Rightarrow> [] | Some m \<Rightarrow> nodes m)
       (case s of None \<Rightarrow> [] | Some x \<Rightarrow> documents x)"
  "jsonifyParts env parts w = Inr (ps, w') \<Longrightarrow>
     list_all2 (transformed env)
       (concat (map (\<lambda>p. case p of None \<Rightarrow> [] | Some part \<Rightarrow> nodes part) parts))
       (concat (map documents ps))"
proof (induction env msg w and env sub w and env parts w
    arbitrary: d w' and s w' and ps w'
    rule: jsonifyMsg_jsonifySubMessage_jsonifyParts.induct)
  case (1 env hdr pre epi parts sub body w)
  from "1.prems" obtain h submsg w1 partmsgs w2 tbody att where
    h: "jsonifyMsg_Headers env hdr = Inr h"
    and s: "jsonifySubMessage env sub w = Inr (submsg, w1)"
    and p: "jsonifyParts env parts w1 = Inr (partmsgs, w2)"
    and d: "d = JMessage (Header_Get hdr ''Message-Id'') h pre epi partmsgs submsg tbody att"
    by (rule jsonifyMsg_Inr)
  have "transformed env (Message hdr pre epi parts sub body) d"
    using "1.prems" unfolding transformed_def by blast
  moreover have "list_all2 (transformed env)
       (concat (map (\<lambda>p. case p of None \<Rightarrow> [] | Some part \<Rightarrow> nodes part) parts))
       (concat (map documents partmsgs))"
    using "1.IH"(2)[OF h s refl p] .
  moreover have "list_all2 (transformed env) (case sub of None \<Rightarrow> [] | Some m \<Rightarrow> nodes m)
       (case submsg of None \<Rightarrow> [] | Some x \<Rightarrow> documents x)"
    using "1.IH"(1)[OF h s] .
  ultimately show ?case unfolding d by (simp add: list_all2_appendI)
next
  case (2 env w)
  then show ?case by simp
next
  case (3 env sub w)
  from "3.prems" obtain x where "jsonifyMsg env sub w = Inr (x, w')" "s = Some x"
    by (auto split: sum.splits prod.splits)
  then show ?case using "3.IH" by simp
next
  case (4 env w)
  then show ?case by simp
next
  case (5 env parts w)
  then show ?case by simp
next
  case (6 env part parts w)
  from "6.prems" obtain x w1 xs where
    x: "jsonifyMsg env part w = Inr (x, w1)"
    and xs: "jsonifyParts env parts w1 = Inr (xs, w')" and ps: "ps = x # xs"
    by (auto split: sum.splits prod.splits)
  show ?case
    using "6.IH"(1)[OF x] "6.IH"(2)[OF x refl xs] ps by (simp add: list_all2_appendI)
qed

lemma documents_transformed:
  assumes "jsonifyMsg env msg w = Inr (d, w')" and "x \<in> set (documents d)"
  obtains m where "m \<in> set (nodes msg)" "transformed env m x"
  using nodes_documents(1)[OF assms(1)] assms(2)
  by (metis in_set_conv_nth list_all2_conv_all_nth)


subsection \<open>When the transformation returns\<close>

text \<open>
  \<open>jsonifyMsg\<close> is total, and the only way not to return a document is a panic. With
  libraries that never lead to one, it returns a document for every message.
\<close>

lemma decodeCharset_returns:
  assumes "neverPanics env"
  shows "\<exists>r. decodeCharset env charset body ishtml = Inr r"
proof -
  obtain detenc err where d:
    "(if ishtml then htmlDetector env body else textDetector env body) = (detenc, err)"
    by (cases "if ishtml then htmlDetector env body else textDetector env body")
  have "err \<noteq> None \<Longrightarrow> detenc \<noteq> None"
    using assms d unfolding neverPanics_def by (cases ishtml; cases detenc) auto
  then show ?thesis
    using d
    by (auto simp: decodeCharset_def split: option.splits sum.splits prod.splits)
qed

lemma decodeValues_returns:
  assumes "neverPanics env"
  shows "\<exists>ds. decodeValues env vs = Inr ds"
proof (induction vs)
  case Nil
  then show ?case by simp
next
  case (Cons v vs)
  obtain r where "mime_DecodeHeader env (decodeReader env) v = Inr r"
    using assms unfolding neverPanics_def
    by (cases "mime_DecodeHeader env (decodeReader env) v") auto
  then show ?case using Cons by auto
qed

lemma decodeHeaders_returns:
  assumes "neverPanics env"
  shows "\<exists>h'. decodeHeaders env h = Inr h'"
proof (induction h)
  case Nil
  then show ?case by simp
next
  case (Cons kv h)
  obtain k vs where kv: "kv = (k, vs)" by (cases kv)
  obtain ds where "decodeValues env vs = Inr ds"
    using decodeValues_returns[OF assms] by blast
  then show ?case using Cons kv by auto
qed

lemma jsonifyMsg_Headers_returns:
  assumes "neverPanics env"
  shows "\<exists>h. jsonifyMsg_Headers env hdr = Inr h"
  using decodeHeaders_returns[OF assms, of "AList.delete ''Message-Id'' hdr"]
  by (auto simp: jsonifyMsg_Headers_def)

lemma jsonifyMsg_Body_returns:
  assumes "neverPanics env"
  shows "\<exists>r. jsonifyMsg_Body env h body w = Inr r"
proof -
  have "\<exists>r. jsonifyMsg_Charset env ctype b = Inr r" for ctype b
    using decodeCharset_returns[OF assms]
    by (auto simp: jsonifyMsg_Charset_def split: prod.splits)
  then show ?thesis
    unfolding jsonifyMsg_Body_def
    by (auto split: sum.splits prod.splits option.splits) (metis sum.distinct(1))+
qed

lemma jsonifyMsg_returns:
  "neverPanics env \<Longrightarrow> \<exists>r. jsonifyMsg env msg w = Inr r"
  "neverPanics env \<Longrightarrow> \<exists>r. jsonifySubMessage env sub w = Inr r"
  "neverPanics env \<Longrightarrow> \<exists>r. jsonifyParts env parts w = Inr r"
proof (induction env msg w and env sub w and env parts w
    rule: jsonifyMsg_jsonifySubMessage_jsonifyParts.induct)
  case (1 env hdr pre epi parts sub body w)
  obtain h where h: "jsonifyMsg_Headers env hdr = Inr h"
    using jsonifyMsg_Headers_returns[OF "1.prems"] by blast
  obtain s w1 where s: "jsonifySubMessage env sub w = Inr (s, w1)"
    using "1.IH"(1)[OF h "1.prems"] by auto
  obtain ps w2 where p: "jsonifyParts env parts w1 = Inr (ps, w2)"
    using "1.IH"(2)[OF h s refl "1.prems"] by auto
  obtain tbody att w3 where "jsonifyMsg_Body env h body w2 = Inr ((tbody, att), w3)"
    using jsonifyMsg_Body_returns[OF "1.prems", of h body w2] by auto
  then show ?case using h s p by simp
next
  case (2 env w)
  then show ?case by simp
next
  case (3 env sub w)
  then show ?case by auto
next
  case (4 env w)
  then show ?case by simp
next
  case (5 env parts w)
  then show ?case by simp
next
  case (6 env part parts w)
  obtain x w1 where x: "jsonifyMsg env part w = Inr (x, w1)"
    using "6.IH"(1)[OF "6.prems"] by auto
  obtain xs w2 where "jsonifyParts env parts w1 = Inr (xs, w2)"
    using "6.IH"(2)[OF x refl "6.prems"] by auto
  then show ?case using x by simp
qed

lemma neverPanics_example: "neverPanics (testEnv\<lparr>htmlDetector := textDetector testEnv\<rparr>)"
  by (simp add: neverPanics_def testEnv_def)

subsection \<open>Test vectors\<close>

lemma jsonifyMsg_file_split:
  "(case jsonifyMsg_file env body w of (path, w') \<Rightarrow> f path w') =
     f (attachmentPath env body) (snd (jsonifyMsg_file env body w))"
  using jsonifyMsg_file_path[of env body w] by (simp add: case_prod_unfold)

lemmas test_defs =
  testEnv_def jsonifyMsg_Headers_def Header_apply_def jsonifyMsg_Body_def
  jsonifyMsg_TransferEncoding_def Header_Get_def Header_index_def textPart_def
  strings_HasPrefix_def jsonifyMsg_Charset_def decodeCharset_def stripSpaceAndComments_def
  splitAddrs_def normalizedFields_def jsonifyMsg_file_split

lemma jsonifyMsg_textMessage: "jsonifyMsg testEnv textMessage w = Inr (textDocument, w)"
  by (simp add: textMessage_def textDocument_def test_defs)

lemma jsonifyMsg_base64Message:
  "jsonifyMsg testEnv base64Message w =
     Inr (base64Document, snd (jsonifyMsg_file testEnv ''!'' w))"
  by (simp add: base64Message_def base64Document_def test_defs)

lemma jsonifyMsg_klingonMessage:
  "jsonifyMsg testEnv klingonMessage w =
     Inr (klingonDocument, snd (jsonifyMsg_file testEnv ''nuqneH'' w))"
  by (simp add: klingonMessage_def klingonDocument_def test_defs)

lemma jsonifyMsg_mixedMessage:
  "jsonifyMsg testEnv mixedMessage w =
     Inr (mixedDocument,
          snd (jsonifyMsg_file testEnv [] (snd (jsonifyMsg_file testEnv ''!'' w))))"
proof -
  let ?h = "(''Content-Type'', [''multipart/mixed'']) # normalizedFields"
  have h: "jsonifyMsg_Headers testEnv [(''Content-Type'', [''multipart/mixed''])] = Inr ?h"
    by (simp add: test_defs)
  have b: "jsonifyMsg_Body testEnv ?h [] s =
      Inr (([], attachmentPath testEnv []), snd (jsonifyMsg_file testEnv [] s))" for s
    by (simp add: test_defs)
  have g: "Header_Get [(''Content-Type'', [''multipart/mixed''])] ''Message-Id'' = []"
    by (simp add: Header_Get_def)
  show ?thesis
    by (simp add: mixedMessage_def mixedDocument_def h b g jsonifyMsg_textMessage
        jsonifyMsg_base64Message)
qed

lemma testEnv_digest:
  "Rep_digest (blake2b_Sum256 testEnv body) = take 32 (body @ replicate 32 (CHR 0x00))"
  by (simp add: testEnv_def Abs_digest_inverse)

lemma testEnv_path:
  "attachmentPath testEnv body =
     ''files/'' @ hex_EncodeToString (take 32 (body @ replicate 32 (CHR 0x00)))"
proof -
  have "attachmentPath testEnv body =
      ''files'' @ ''/'' @ hex_EncodeToString (Rep_digest (blake2b_Sum256 testEnv body))"
  proof -
    have a: "attachdir testEnv = ''files''" by (simp add: testEnv_def)
    show ?thesis
      unfolding attachmentPath_def a
      by (subst filepath_Join_plain) (simp_all add: digest_name)
  qed
  then show ?thesis by (simp add: testEnv_digest)
qed

lemma strictEnv_path: "attachmentPath strictEnv body = attachmentPath testEnv body"
  by (simp add: attachmentPath_def strictEnv_def)

lemma hex_unpadded:
  "hex_EncodeToString (take 32 (''aGVsbG8'' @ replicate 32 (CHR 0x00))) =
     ''6147567362473800000000000000000000000000000000000000000000000000''"
  by code_simp

lemma hex_control:
  "hex_EncodeToString (take 32 (''a'' @ [CHR 0x01] @ replicate 32 (CHR 0x00))) =
     ''6101000000000000000000000000000000000000000000000000000000000000''"
  by code_simp

lemma hex_empty:
  "hex_EncodeToString (take 32 ([] @ replicate 32 (CHR 0x00))) =
     ''0000000000000000000000000000000000000000000000000000000000000000''"
  by code_simp

lemma hex_klingon:
  "hex_EncodeToString (take 32 (''nuqneH'' @ replicate 32 (CHR 0x00))) =
     ''6e75716e65480000000000000000000000000000000000000000000000000000''"
  by code_simp

lemmas strict_defs = strictEnv_def base64Std_def quantum_def byteOf_def
  quotedprintable_rejecting_def normalizeForBase64_def base64Rune_def

lemma jsonifyMsg_emptyTextMessage:
  "jsonifyMsg testEnv emptyTextMessage w = Inr (emptyTextDocument, w)"
  by (simp add: emptyTextMessage_def emptyTextDocument_def test_defs)

lemma jsonifyMsg_containerMessage:
  "jsonifyMsg testEnv containerMessage w =
     Inr (containerDocument, snd (jsonifyMsg_file testEnv [] w))"
proof -
  let ?h = "(''Content-Type'', [''multipart/mixed'']) # normalizedFields"
  have h: "jsonifyMsg_Headers testEnv [(''Content-Type'', [''multipart/mixed''])] = Inr ?h"
    by (simp add: test_defs)
  have b: "jsonifyMsg_Body testEnv ?h [] s =
      Inr (([], attachmentPath testEnv []), snd (jsonifyMsg_file testEnv [] s))" for s
    by (simp add: test_defs)
  have g: "Header_Get [(''Content-Type'', [''multipart/mixed''])] ''Message-Id'' = []"
    by (simp add: Header_Get_def)
  have p: "attachmentPath testEnv [] =
      ''files/0000000000000000000000000000000000000000000000000000000000000000''"
    unfolding testEnv_path hex_empty by simp
  show ?thesis
    unfolding containerDocument_def p[symmetric]
    by (simp add: containerMessage_def h b g jsonifyMsg_textMessage jsonifyMsg_emptyTextMessage)
qed

subsection \<open>The claims about one node and its tree\<close>





text \<open>
  Claim C2. A document returned by \<open>jsonifyMsg\<close> never has both a text body and an
  attachment path: when the charset stage succeeds, the text body is the decoded text
  and the attachment path is empty; when an attachment path is recorded, the text body
  is empty. The same holds for every document of the returned tree.
\<close>

theorem jsonifyMsg_text_or_attachment:
  assumes "jsonifyMsg env msg w = Inr (d, w')"
  shows "(TextBody d = [] \<or> Attachment d = []) \<and>
         (\<forall>decoded. decodedText env (Header d) (msg_Body msg) = Some decoded \<longrightarrow>
            TextBody d = decoded \<and> Attachment d = []) \<and>
         (Attachment d \<noteq> [] \<longrightarrow> TextBody d = []) \<and>
         (\<forall>x \<in> set (documents d). TextBody x = [] \<or> Attachment x = [])"
proof -
  have node: "TextBody x = [] \<or> Attachment x = []" if "transformed env m x" for m x
  proof -
    from that obtain s s' where r: "jsonifyMsg env m s = Inr (x, s')"
      unfolding transformed_def by blast
    show ?thesis using jsonifyMsg_node(5)[OF r] by (auto split: option.splits)
  qed
  have "\<forall>x \<in> set (documents d). TextBody x = [] \<or> Attachment x = []"
  proof
    fix x assume "x \<in> set (documents d)"
    with assms obtain m where "transformed env m x" by (rule documents_transformed)
    then show "TextBody x = [] \<or> Attachment x = []" by (rule node)
  qed
  then show ?thesis using jsonifyMsg_node(5)[OF assms] by (auto split: option.splits)
qed

theorem jsonifyMsg_text_or_attachment_witness:
  "jsonifyMsg testEnv mixedMessage emptyDir =
     Inr (mixedDocument,
          snd (jsonifyMsg_file testEnv [] (snd (jsonifyMsg_file testEnv ''!'' emptyDir)))) \<and>
   TextBody mixedDocument = [] \<and>
   textDocument \<in> set (documents mixedDocument) \<and>
   (TextBody textDocument = [] \<or> Attachment textDocument = []) \<and>
   decodedText testEnv (Header textDocument) (msg_Body textMessage) = Some ''hello'' \<and>
   TextBody textDocument = ''hello'' \<and> Attachment textDocument = []"
proof -
  note r = jsonifyMsg_mixedMessage[of emptyDir]
  note t = jsonifyMsg_text_or_attachment[OF r]
  have a: "textDocument \<in> set (documents mixedDocument)"
    by (simp add: mixedDocument_def textDocument_def)
  have b: "decodedText testEnv (Header textDocument) (msg_Body textMessage) = Some ''hello''"
    by (simp add: decodedText_def textDocument_def textMessage_def test_defs)
  note u = jsonifyMsg_text_or_attachment[OF jsonifyMsg_textMessage[of emptyDir]]
  have "TextBody mixedDocument = []" by (simp add: mixedDocument_def)
  then show ?thesis using r t a b u by blast
qed

text \<open>
  Claim C10, as amended. When \<open>jsonifyMsg\<close> returns a document for a node whose charset
  stage is not entered or does not succeed (a node that is no text part is such a node),
  the attachment path of the document is the attachment directory joined with the name
  of the attachment, the 64 hexadecimal digits of the digest of the bytes that reach
  \<^verbatim>\<open>file:\<close>; the path is not empty and ends with that name, and the text body is empty.
  A returned document has neither a text body nor an attachment path exactly when its
  charset stage succeeded with the empty text.
\<close>

theorem jsonifyMsg_attachment_recorded:
  fixes env :: env and msg :: Message and d :: JMessage
  defines "stored \<equiv> fileBody env (Header d) (msg_Body msg)"
  defines "name \<equiv> hex_EncodeToString (Rep_digest (blake2b_Sum256 env stored))"
  assumes "jsonifyMsg env msg w = Inr (d, w')"
  shows "(\<not> textPart (Header d) \<longrightarrow> decodedText env (Header d) (msg_Body msg) = None) \<and>
         (decodedText env (Header d) (msg_Body msg) = None \<longrightarrow>
            Attachment d = filepath_Join (attachdir env) name \<and>
            Attachment d \<noteq> [] \<and> suffix name (Attachment d) \<and> length name = 64 \<and>
            TextBody d = []) \<and>
         ((TextBody d = [] \<and> Attachment d = []) =
            (decodedText env (Header d) (msg_Body msg) = Some []))"
proof -
  have a: "decodedText env (Header d) (msg_Body msg) = None" if "\<not> textPart (Header d)"
    using that decodedText_textPart[of env "Header d" "msg_Body msg"]
    by (cases "decodedText env (Header d) (msg_Body msg)") auto
  have p: "attachmentPath env stored = filepath_Join (attachdir env) name"
    by (simp add: attachmentPath_def name_def)
  have n: "attachmentPath env stored \<noteq> []" "suffix name (attachmentPath env stored)"
    "length name = 64"
    using attachmentPath_nonempty[of env stored] attachmentPath_suffix[of env stored]
      digest_name(1)[of env stored]
    unfolding name_def by simp_all
  note node = jsonifyMsg_node(5)[OF assms(3), folded stored_def]
  have b: "Attachment d = filepath_Join (attachdir env) name \<and>
      Attachment d \<noteq> [] \<and> suffix name (Attachment d) \<and> length name = 64 \<and> TextBody d = []"
    if "decodedText env (Header d) (msg_Body msg) = None"
    using that node n p by simp
  have c: "(TextBody d = [] \<and> Attachment d = []) =
      (decodedText env (Header d) (msg_Body msg) = Some [])"
    using node n(1) by (cases "decodedText env (Header d) (msg_Body msg)") auto
  show ?thesis using a b c by blast
qed

theorem jsonifyMsg_attachment_recorded_witness:
  "jsonifyMsg testEnv containerMessage emptyDir =
     Inr (containerDocument, snd (jsonifyMsg_file testEnv [] emptyDir)) \<and>
   \<not> textPart (Header containerDocument) \<and>
   decodedText testEnv (Header containerDocument) (msg_Body containerMessage) = None \<and>
   fileBody testEnv (Header containerDocument) (msg_Body containerMessage) = [] \<and>
   hex_EncodeToString (Rep_digest (blake2b_Sum256 testEnv [])) =
     ''0000000000000000000000000000000000000000000000000000000000000000'' \<and>
   Attachment containerDocument =
     ''files/0000000000000000000000000000000000000000000000000000000000000000'' \<and>
   Attachment containerDocument \<noteq> [] \<and> TextBody containerDocument = [] \<and>
   jsonifyMsg testEnv klingonMessage emptyDir =
     Inr (klingonDocument, snd (jsonifyMsg_file testEnv ''nuqneH'' emptyDir)) \<and>
   textPart (Header klingonDocument) \<and>
   decodedText testEnv (Header klingonDocument) (msg_Body klingonMessage) = None \<and>
   fileBody testEnv (Header klingonDocument) (msg_Body klingonMessage) = ''nuqneH'' \<and>
   hex_EncodeToString (Rep_digest (blake2b_Sum256 testEnv ''nuqneH'')) =
     ''6e75716e65480000000000000000000000000000000000000000000000000000'' \<and>
   Attachment klingonDocument =
     ''files/6e75716e65480000000000000000000000000000000000000000000000000000'' \<and>
   Attachment klingonDocument \<noteq> [] \<and> TextBody klingonDocument = [] \<and>
   jsonifyMsg testEnv emptyTextMessage emptyDir = Inr (emptyTextDocument, emptyDir) \<and>
   decodedText testEnv (Header emptyTextDocument) (msg_Body emptyTextMessage) = Some [] \<and>
   TextBody emptyTextDocument = [] \<and> Attachment emptyTextDocument = []"
proof -
  note r = jsonifyMsg_containerMessage[of emptyDir]
  have a: "\<not> textPart (Header containerDocument)"
    by (simp add: containerDocument_def test_defs)
  have c: "fileBody testEnv (Header containerDocument) (msg_Body containerMessage) = []"
    by (simp add: fileBody_def containerDocument_def containerMessage_def test_defs)
  have n0: "hex_EncodeToString (Rep_digest (blake2b_Sum256 testEnv [])) =
      ''0000000000000000000000000000000000000000000000000000000000000000''"
    using hex_empty by (simp add: testEnv_digest)
  have j: "filepath_Join (attachdir testEnv) name = ''files/'' @ name"
    if "length name = 64" "CHR ''/'' \<notin> set name" for name
  proof -
    have "name \<noteq> []" "name \<noteq> ''.''" "name \<noteq> ''..''" using that(1) by auto
    then show ?thesis using that(2) by (simp add: filepath_Join_plain testEnv_def)
  qed
  note t = jsonifyMsg_attachment_recorded[OF r, unfolded c n0]
  have d0: "decodedText testEnv (Header containerDocument) (msg_Body containerMessage) = None"
    using t a by blast
  have m: "Attachment containerDocument =
      ''files/0000000000000000000000000000000000000000000000000000000000000000'' \<and>
      Attachment containerDocument \<noteq> [] \<and> TextBody containerDocument = []"
    using t d0 by (simp add: j)
  note k = jsonifyMsg_klingonMessage[of emptyDir]
  have e: "textPart (Header klingonDocument)"
    by (simp add: klingonDocument_def test_defs)
  have f: "decodedText testEnv (Header klingonDocument) (msg_Body klingonMessage) = None"
    by (simp add: decodedText_def klingonDocument_def klingonMessage_def test_defs)
  have g: "fileBody testEnv (Header klingonDocument) (msg_Body klingonMessage) = ''nuqneH''"
    by (simp add: fileBody_def klingonDocument_def klingonMessage_def test_defs)
  have n1: "hex_EncodeToString (Rep_digest (blake2b_Sum256 testEnv ''nuqneH'')) =
      ''6e75716e65480000000000000000000000000000000000000000000000000000''"
    using hex_klingon by (simp add: testEnv_digest)
  note u = jsonifyMsg_attachment_recorded[OF k, unfolded g n1]
  have n: "Attachment klingonDocument =
      ''files/6e75716e65480000000000000000000000000000000000000000000000000000'' \<and>
      Attachment klingonDocument \<noteq> [] \<and> TextBody klingonDocument = []"
    using u f by (simp add: j)
  note x = jsonifyMsg_emptyTextMessage[of emptyDir]
  have y: "TextBody emptyTextDocument = []" "Attachment emptyTextDocument = []"
    by (simp_all add: emptyTextDocument_def)
  note v = jsonifyMsg_attachment_recorded[OF x]
  have z: "decodedText testEnv (Header emptyTextDocument) (msg_Body emptyTextMessage) = Some []"
    using v y by blast
  show ?thesis
    using r a d0 c n0 m k e f g n1 n x z y by (intro conjI) simp_all
qed

text \<open>
  Claim C10 as stated fails for a text part with an empty body: its charset stage
  succeeds, so the text body is the decoded text, which is empty, and no attachment is
  recorded. The returned document has neither a text body nor an attachment path.
\<close>

theorem jsonifyMsg_empty_text:
  "jsonifyMsg testEnv emptyTextMessage emptyDir = Inr (emptyTextDocument, emptyDir) \<and>
   TextBody emptyTextDocument = [] \<and> Attachment emptyTextDocument = []"
  by (simp add: jsonifyMsg_emptyTextMessage emptyTextDocument_def)

text \<open>
  Claim C5. Take a node whose normalised header declares the transfer encoding
  \<^verbatim>\<open>quoted-printable\<close> or \<^verbatim>\<open>base64\<close>, whose transfer decoding fails, and whose sub-message
  and parts have been transformed. Then \<open>jsonifyMsg\<close> returns a document for it, with
  the transformed sub-message and parts and an empty text body; the charset stage is
  not run. Its attachment path is the attachment directory joined with the 64
  hexadecimal digits of the digest of the body as it was before decoding; the path is
  not empty and ends with these digits. The attachment directory is updated for the
  undecoded body: when a file is visible at the path already, nothing is written; when
  none is and no call of the operating system fails, the undecoded body is written once
  and published at the path; in every case at most this file is published and at most
  this body is written. Only this part is given up: the parts behind it are transformed
  as they are behind any other part, from the attachment directory as this part left
  it.
\<close>

theorem jsonifyMsg_transfer_failure:
  fixes env :: env and body :: bytes
  defines "name \<equiv> hex_EncodeToString (Rep_digest (blake2b_Sum256 env body))"
  defines "path \<equiv> filepath_Join (attachdir env) name"
  assumes "jsonifyMsg_Headers env hdr = Inr h"
    and "jsonifySubMessage env sub w = Inr (submsg, w1)"
    and "jsonifyParts env parts w1 = Inr (partmsgs, w2)"
    and "Header_Get h ''Content-Transfer-Encoding'' = ''quoted-printable'' \<or>
         Header_Get h ''Content-Transfer-Encoding'' = ''base64''"
    and "jsonifyMsg_TransferEncoding env (Header_Get h ''Content-Transfer-Encoding'') body = Inl err"
  shows "\<exists>w3.
           jsonifyMsg env (Message hdr pre epi parts sub body) w =
             Inr (JMessage (Header_Get hdr ''Message-Id'') h pre epi partmsgs submsg [] path, w3) \<and>
           (files w2 path \<noteq> None \<longrightarrow> files w3 = files w2 \<and> writes w3 = writes w2) \<and>
           (files w2 path = None \<and> (faults w2 = [] \<or> hd (faults w2) = None) \<longrightarrow>
              files w3 = (files w2)(path \<mapsto> body) \<and> writes w3 = writes w2 @ [(path, body)]) \<and>
           (files w3 = files w2 \<or> files w3 = (files w2)(path \<mapsto> body)) \<and>
           (writes w3 = writes w2 \<or> writes w3 = writes w2 @ [(path, body)]) \<and>
           jsonifyParts env (Some (Message hdr pre epi parts sub body) # siblings) w =
             (case jsonifyParts env siblings w3 of
                Inl p \<Rightarrow> Inl p
              | Inr (ds, w4) \<Rightarrow>
                  Inr (JMessage (Header_Get hdr ''Message-Id'') h pre epi partmsgs submsg [] path
                         # ds, w4)) \<and>
           path \<noteq> [] \<and> suffix name path \<and> length name = 64"
proof -
  let ?w3 = "snd (jsonifyMsg_file env body w2)"
  have p: "attachmentPath env body = path"
    by (simp add: attachmentPath_def path_def name_def)
  have "jsonifyMsg_Body env h body w2 = Inr (([], path), ?w3)"
    using assms(7) by (simp add: jsonifyMsg_Body_def jsonifyMsg_file_split p)
  then have r: "jsonifyMsg env (Message hdr pre epi parts sub body) w =
      Inr (JMessage (Header_Get hdr ''Message-Id'') h pre epi partmsgs submsg [] path, ?w3)"
    using assms(3-5) by simp
  have hit: "files ?w3 = files w2 \<and> writes ?w3 = writes w2" if "files w2 path \<noteq> None"
    using jsonifyMsg_file_hit[of w2 env body] that unfolding p by simp
  have first: "files ?w3 = (files w2)(path \<mapsto> body) \<and> writes ?w3 = writes w2 @ [(path, body)]"
    if "files w2 path = None \<and> (faults w2 = [] \<or> hd (faults w2) = None)"
    using jsonifyMsg_file_first[of w2 env body] that unfolding p by simp
  have f: "files ?w3 = files w2 \<or> files ?w3 = (files w2)(path \<mapsto> body)"
    using jsonifyMsg_file_files[of env body w2] unfolding p .
  have wr: "writes ?w3 = writes w2 \<or> writes ?w3 = writes w2 @ [(path, body)]"
    using p by (auto simp: jsonifyMsg_file_def Let_def)
  have n: "path \<noteq> []" "suffix name path" "length name = 64"
    using attachmentPath_nonempty[of env body] attachmentPath_suffix[of env body]
      digest_name(1)[of env body]
    unfolding p name_def by simp_all
  have sib: "jsonifyParts env (Some (Message hdr pre epi parts sub body) # siblings) w =
      (case jsonifyParts env siblings ?w3 of
         Inl p \<Rightarrow> Inl p
       | Inr (ds, w4) \<Rightarrow>
           Inr (JMessage (Header_Get hdr ''Message-Id'') h pre epi partmsgs submsg [] path
                  # ds, w4))"
    unfolding jsonifyParts.simps r by simp
  show ?thesis using r hit first f wr n sib by (intro exI[of _ ?w3]) auto
qed

theorem jsonifyMsg_transfer_failure_witness:
  "jsonifyMsg_Headers strictEnv (msg_Header unpaddedMessage) = Inr (Header unpaddedDocument) \<and>
   Header_Get (Header unpaddedDocument) ''Content-Transfer-Encoding'' = ''base64'' \<and>
   msg_Body unpaddedMessage = ''aGVsbG8'' \<and>
   jsonifyMsg_TransferEncoding strictEnv ''base64'' ''aGVsbG8'' =
     Inl (Error ''illegal base64 data'') \<and>
   hex_EncodeToString (Rep_digest (blake2b_Sum256 strictEnv ''aGVsbG8'')) =
     ''6147567362473800000000000000000000000000000000000000000000000000'' \<and>
   (\<exists>w3. jsonifyMsg strictEnv unpaddedMessage emptyDir = Inr (unpaddedDocument, w3) \<and>
      files w3 = [Attachment unpaddedDocument \<mapsto> ''aGVsbG8''] \<and>
      writes w3 = [(Attachment unpaddedDocument, ''aGVsbG8'')]) \<and>
   TextBody unpaddedDocument = [] \<and>
   Attachment unpaddedDocument =
     ''files/6147567362473800000000000000000000000000000000000000000000000000'' \<and>
   (\<exists>w3. jsonifyParts strictEnv [Some unpaddedMessage, Some textMessage] emptyDir =
      Inr ([unpaddedDocument, textDocument], w3)) \<and>
   jsonifyMsg_Headers strictEnv (msg_Header controlMessage) = Inr (Header controlDocument) \<and>
   Header_Get (Header controlDocument) ''Content-Transfer-Encoding'' = ''quoted-printable'' \<and>
   msg_Body controlMessage = ''a'' @ [CHR 0x01] \<and>
   jsonifyMsg_TransferEncoding strictEnv ''quoted-printable'' (''a'' @ [CHR 0x01]) =
     Inl (Error ''quotedprintable: invalid unescaped byte in body'') \<and>
   (\<exists>w3. jsonifyMsg strictEnv controlMessage emptyDir = Inr (controlDocument, w3) \<and>
      files w3 = [Attachment controlDocument \<mapsto> ''a'' @ [CHR 0x01]] \<and>
      writes w3 = [(Attachment controlDocument, ''a'' @ [CHR 0x01])]) \<and>
   TextBody controlDocument = [] \<and>
   Attachment controlDocument =
     ''files/6101000000000000000000000000000000000000000000000000000000000000''"
proof -
  let ?p = "''files/6147567362473800000000000000000000000000000000000000000000000000''"
  let ?q = "''files/6101000000000000000000000000000000000000000000000000000000000000''"
  have s: "jsonifySubMessage strictEnv None emptyDir = Inr (None, emptyDir)" by simp
  have p: "jsonifyParts strictEnv [] emptyDir = Inr ([], emptyDir)" by simp
  have g: "Header_Get h ''Message-Id'' = []"
    if "map_of h ''Message-Id'' = None" for h
    using that by (simp add: Header_Get_def)
  have h1: "jsonifyMsg_Headers strictEnv (msg_Header unpaddedMessage) = Inr (Header unpaddedDocument)"
    by (simp add: unpaddedMessage_def unpaddedDocument_def test_defs strict_defs)
  have c1: "Header_Get (Header unpaddedDocument) ''Content-Transfer-Encoding'' = ''base64''"
    by (simp add: unpaddedDocument_def Header_Get_def)
  have e1: "jsonifyMsg_TransferEncoding strictEnv ''base64'' ''aGVsbG8'' =
      Inl (Error ''illegal base64 data'')"
    by (simp add: jsonifyMsg_TransferEncoding_def strict_defs)
  have n1: "hex_EncodeToString (Rep_digest (blake2b_Sum256 strictEnv ''aGVsbG8'')) =
      ''6147567362473800000000000000000000000000000000000000000000000000''"
    using hex_unpadded testEnv_digest[of "''aGVsbG8''"] by (simp add: strictEnv_def)
  have j1: "filepath_Join (attachdir strictEnv)
      ''6147567362473800000000000000000000000000000000000000000000000000'' = ?p"
    using strictEnv_path[of "''aGVsbG8''"] testEnv_path[of "''aGVsbG8''"] hex_unpadded n1
    by (simp add: attachmentPath_def)
  note t1 = jsonifyMsg_transfer_failure[OF h1[unfolded unpaddedMessage_def Message.sel] s p
      disjI2[OF c1] e1[folded c1], of "[]" "[]", unfolded n1 j1]
  have d1: "JMessage [] (Header unpaddedDocument) [] [] [] None [] ?p = unpaddedDocument"
    by (simp add: unpaddedDocument_def)
  have r1: "\<exists>w3. jsonifyMsg strictEnv unpaddedMessage emptyDir = Inr (unpaddedDocument, w3) \<and>
      files w3 = [Attachment unpaddedDocument \<mapsto> ''aGVsbG8''] \<and>
      writes w3 = [(Attachment unpaddedDocument, ''aGVsbG8'')]"
    using t1 by (auto simp: unpaddedMessage_def unpaddedDocument_def emptyDir_def Header_Get_def)
  have tm: "jsonifyMsg strictEnv textMessage w = Inr (textDocument, w)" for w
    by (simp add: textMessage_def textDocument_def test_defs strict_defs)
  have s1: "\<exists>w3. jsonifyParts strictEnv [Some unpaddedMessage, Some textMessage] emptyDir =
      Inr ([unpaddedDocument, textDocument], w3)"
    using t1[where siblings = "[Some textMessage]"] tm
    by (auto simp: unpaddedMessage_def unpaddedDocument_def Header_Get_def)
  have h2: "jsonifyMsg_Headers strictEnv (msg_Header controlMessage) = Inr (Header controlDocument)"
    by (simp add: controlMessage_def controlDocument_def test_defs strict_defs)
  have c2: "Header_Get (Header controlDocument) ''Content-Transfer-Encoding'' = ''quoted-printable''"
    by (simp add: controlDocument_def Header_Get_def)
  have e2: "jsonifyMsg_TransferEncoding strictEnv ''quoted-printable'' (''a'' @ [CHR 0x01]) =
      Inl (Error ''quotedprintable: invalid unescaped byte in body'')"
    by (simp add: jsonifyMsg_TransferEncoding_def strict_defs)
  have n2: "hex_EncodeToString (Rep_digest (blake2b_Sum256 strictEnv (''a'' @ [CHR 0x01]))) =
      ''6101000000000000000000000000000000000000000000000000000000000000''"
    using hex_control testEnv_digest[of "''a'' @ [CHR 0x01]"] by (simp add: strictEnv_def)
  have j2: "filepath_Join (attachdir strictEnv)
      ''6101000000000000000000000000000000000000000000000000000000000000'' = ?q"
    using strictEnv_path[of "''a'' @ [CHR 0x01]"] testEnv_path[of "''a'' @ [CHR 0x01]"] hex_control n2
    by (simp add: attachmentPath_def)
  note t2 = jsonifyMsg_transfer_failure[OF h2[unfolded controlMessage_def Message.sel] s p
      disjI1[OF c2] e2[folded c2], of "[]" "[]", unfolded n2 j2]
  have r2: "\<exists>w3. jsonifyMsg strictEnv controlMessage emptyDir = Inr (controlDocument, w3) \<and>
      files w3 = [Attachment controlDocument \<mapsto> ''a'' @ [CHR 0x01]] \<and>
      writes w3 = [(Attachment controlDocument, ''a'' @ [CHR 0x01])]"
    using t2 by (auto simp: controlMessage_def controlDocument_def emptyDir_def Header_Get_def)
  have b: "msg_Body unpaddedMessage = ''aGVsbG8''" "msg_Body controlMessage = ''a'' @ [CHR 0x01]"
    "TextBody unpaddedDocument = []" "Attachment unpaddedDocument = ?p"
    "TextBody controlDocument = []" "Attachment controlDocument = ?q"
    by (simp_all add: unpaddedMessage_def controlMessage_def unpaddedDocument_def
        controlDocument_def)
  show ?thesis
    by (intro conjI h1 c1 e1 n1 r1 s1 h2 c2 e2 r2 b)
qed

end
